theory Spec2Isabelle
  imports Main "HOL-Library.List_Lexorder" "HOL-Library.Char_ord" "HOL-Library.Monad_Syntax"
    "HOL-Library.FSet"
begin

section \<open>Python values and strings\<close>

text \<open>
  The transpiler of \<^verbatim>\<open>pulpscript.py\<close> walks an AST that was read from JSON: every node is a
  string, a number, \<^verbatim>\<open>None\<close> or a list of nodes. A float is kept as the text that Python's
  \<^verbatim>\<open>str\<close> prints for it, since the transpiler only ever prints it.

  A \<^typ>\<open>string\<close> stands for a Python \<^verbatim>\<open>str\<close> whose code points are below 256; the order on
  strings (\<^verbatim>\<open>sorted\<close>) is the lexicographic order on code points.

  Every function that can raise returns an \<^typ>\<open>'a option\<close>: \<^term>\<open>None\<close> stands for a raised
  exception (IndexError, TypeError, AssertionError, ValueError, AttributeError, KeyError, and
  RecursionError when the recursion depth is used up); nothing in the source catches one, so an
  exception always ends the whole run.
\<close>

datatype node = PStr string | PInt int | PFloat string | PNone | PList "node list"

definition startswith :: "string \<Rightarrow> string \<Rightarrow> bool" where
  "startswith s p = (take (length p) s = p)"

text \<open>\<^verbatim>\<open>str.isspace\<close> on code points below 256, as \<^verbatim>\<open>str.strip()\<close> uses it.\<close>

definition is_space :: "char \<Rightarrow> bool" where
  "is_space c = (let n = (of_char c :: nat) in
     (9 \<le> n \<and> n \<le> 13) \<or> (28 \<le> n \<and> n \<le> 32) \<or> n = 133 \<or> n = 160)"

definition strip :: "string \<Rightarrow> string" where
  "strip s = rev (dropWhile is_space (rev (dropWhile is_space s)))"

text \<open>\<^verbatim>\<open>s.replace(old, new)\<close> for a non-empty \<^verbatim>\<open>old\<close> (every call of the source passes a
  non-empty literal): the occurrences are found from the left and do not overlap.\<close>

function py_replace :: "string \<Rightarrow> string \<Rightarrow> string \<Rightarrow> string" where
  "py_replace [] old new = []"
| "py_replace (c # cs) old new =
     (if old \<noteq> [] \<and> startswith (c # cs) old
      then new @ py_replace (drop (length old) (c # cs)) old new
      else c # py_replace cs old new)"
  by pat_completeness auto
termination
  by (relation "measure (\<lambda>(s, old, new). length s)") auto

text \<open>\<^verbatim>\<open>s.split(c)\<close> for a separator of one character.\<close>

fun split_on :: "char \<Rightarrow> string \<Rightarrow> string list" where
  "split_on c [] = [[]]"
| "split_on c (x # xs) =
     (if x = c then [] # split_on c xs
      else (case split_on c xs of w # ws \<Rightarrow> (x # w) # ws | [] \<Rightarrow> [[x]]))"

text \<open>\<^verbatim>\<open>sep.join(xs)\<close>.\<close>

fun join :: "string \<Rightarrow> string list \<Rightarrow> string" where
  "join sep [] = []"
| "join sep [x] = x"
| "join sep (x # y # ys) = x @ sep @ join sep (y # ys)"

text \<open>\<^verbatim>\<open>str(i)\<close> for an integer: its decimal digits.\<close>

definition digit_char :: "nat \<Rightarrow> char" where
  "digit_char d = ''0123456789'' ! d"

function str_nat :: "nat \<Rightarrow> string" where
  "str_nat n = (if n < 10 then [digit_char n] else str_nat (n div 10) @ [digit_char (n mod 10)])"
  by pat_completeness auto
termination
  by (relation "measure id") auto

definition str_int :: "int \<Rightarrow> string" where
  "str_int i = (if i < 0 then CHR ''-'' # str_nat (nat (- i)) else str_nat (nat i))"

text \<open>\<^verbatim>\<open>repr\<close> of a string: single quotes unless the text has a single quote and no double
  quote; backslash, the quote, tab, newline and carriage return are escaped, every other
  non-printable code point is written \<^verbatim>\<open>\xNN\<close>.\<close>

definition hex_digit :: "nat \<Rightarrow> char" where
  "hex_digit d = ''0123456789abcdef'' ! d"

definition repr_char :: "char \<Rightarrow> char \<Rightarrow> string" where
  "repr_char q c = (let n = (of_char c :: nat) in
     if c = q \<or> c = CHR 0x5C then [CHR 0x5C, c]
     else if c = CHR 0x09 then [CHR 0x5C, CHR ''t'']
     else if c = CHR 0x0A then [CHR 0x5C, CHR ''n'']
     else if c = CHR 0x0D then [CHR 0x5C, CHR ''r'']
     else if n < 32 \<or> n = 127 \<or> (128 \<le> n \<and> n \<le> 160) \<or> n = 173
       then [CHR 0x5C, CHR ''x'', hex_digit (n div 16), hex_digit (n mod 16)]
     else [c])"

definition repr_str :: "string \<Rightarrow> string" where
  "repr_str s = (let q = (if CHR 0x27 \<in> set s \<and> CHR 0x22 \<notin> set s then CHR 0x22 else CHR 0x27)
     in q # concat (map (repr_char q) s) @ [q])"

fun py_repr :: "node \<Rightarrow> string" where
  "py_repr (PStr s) = repr_str s"
| "py_repr (PInt i) = str_int i"
| "py_repr (PFloat t) = t"
| "py_repr PNone = ''None''"
| "py_repr (PList xs) = ''['' @ join '', '' (map py_repr xs) @ '']''"

text \<open>\<^verbatim>\<open>str(x)\<close>, which is also what an f-string prints for \<^verbatim>\<open>{x}\<close>.\<close>

definition py_str :: "node \<Rightarrow> string" where
  "py_str x = (case x of PStr s \<Rightarrow> s | _ \<Rightarrow> py_repr x)"

text \<open>\<^verbatim>\<open>xs[i]\<close> for an integer \<^verbatim>\<open>i\<close>: a negative index counts from the end, an index out of
  range raises.\<close>

definition py_index :: "'a list \<Rightarrow> int \<Rightarrow> 'a option" where
  "py_index xs i = (let n = int (length xs); j = (if i < 0 then n + i else i)
     in if 0 \<le> j \<and> j < n then Some (xs ! nat j) else None)"

text \<open>\<^verbatim>\<open>xs[k]\<close> for a literal index \<^verbatim>\<open>k\<close> that is not negative.\<close>

definition nth_opt :: "'a list \<Rightarrow> nat \<Rightarrow> 'a option" where
  "nth_opt xs k = (if k < length xs then Some (xs ! k) else None)"

text \<open>\<^verbatim>\<open>x[k]\<close> on a node whose type the source has not tested: a list gives its element, a
  string its character (as a string of length one), anything else raises TypeError.\<close>

definition subscript :: "node \<Rightarrow> nat \<Rightarrow> node option" where
  "subscript x k = (case x of
       PList xs \<Rightarrow> nth_opt xs k
     | PStr s \<Rightarrow> (if k < length s then Some (PStr [s ! k]) else None)
     | _ \<Rightarrow> None)"

section \<open>Naming and sanitization\<close>

text \<open>
  \<^verbatim>\<open>re.match(r'^[a-zA-Z_]\w*$', varname)\<close>: the first character is an ASCII letter or an
  underscore, the rest are word characters, and \<^verbatim>\<open>$\<close> also matches just before a newline
  that ends the string. \<^verbatim>\<open>\w\<close> is the underscore and every alphanumeric code point (below
  256: the ASCII ones, the ordinal indicators, the micro sign, the superscript digits, the
  vulgar fractions and the accented letters).
\<close>

definition is_ascii_letter :: "char \<Rightarrow> bool" where
  "is_ascii_letter c = (let n = (of_char c :: nat) in (65 \<le> n \<and> n \<le> 90) \<or> (97 \<le> n \<and> n \<le> 122))"

definition is_word :: "char \<Rightarrow> bool" where
  "is_word c = (let n = (of_char c :: nat) in
     is_ascii_letter c \<or> (48 \<le> n \<and> n \<le> 57) \<or> n = 95
     \<or> n = 170 \<or> n = 178 \<or> n = 179 \<or> n = 181 \<or> n = 185 \<or> n = 186
     \<or> (188 \<le> n \<and> n \<le> 190) \<or> (192 \<le> n \<and> n \<le> 214) \<or> (216 \<le> n \<and> n \<le> 246) \<or> 248 \<le> n)"

definition is_id :: "string \<Rightarrow> bool" where
  "is_id varname = (case varname of
       [] \<Rightarrow> False
     | c # cs \<Rightarrow> (is_ascii_letter c \<or> c = CHR ''_'') \<and>
         (list_all is_word cs \<or> (cs \<noteq> [] \<and> last cs = CHR 0x0A \<and> list_all is_word (butlast cs))))"

definition sanitize_varname :: "string \<Rightarrow> string" where
  "sanitize_varname varname =
     (if is_id varname then varname
      else ''_G[\"'' @ py_replace varname ''\"'' [CHR 0x5C, CHR 0x22] @ ''\"]'')"

section \<open>The transpilation context\<close>

text \<open>
  \<^verbatim>\<open>PulpScriptContext\<close>. The two stacks are Python lists that grow at the end, so the top of a
  stack is the last element. \<^verbatim>\<open>blocks\<close> is the table of block bodies the driver stores in the
  context before it compiles anything; \<^verbatim>\<open>self_evnames\<close>, \<^verbatim>\<open>comments_block\<close> and
  \<^verbatim>\<open>root_evobj\<close> are the attributes \<^verbatim>\<open>transpile_event\<close> stores there. A value of \<^verbatim>\<open>ext_ptl\<close> is a
  string or the boolean \<^verbatim>\<open>False\<close>.
\<close>

datatype cfgval = CfgStr string | CfgFalse

record ctx =
  indent :: int
  errors :: "string list"
  vars :: "string set"
  var_usage :: "string \<rightharpoonup> int"
  full_mimics :: "(string \<times> string \<times> node) list"
  funccache :: "string fset list"
  evobjs :: "string list"
  ext_pdxinfo :: "string \<rightharpoonup> string"
  ext_ptl :: "string \<rightharpoonup> cfgval"
  script_tags :: "string \<rightharpoonup> string \<times> string"
  blocks :: "node list list"
  self_evnames :: "string list"
  comments_block :: "string list"
  root_evobj :: string

definition new_ctx :: "node list list \<Rightarrow> ctx" where
  "new_ctx bs = \<lparr> indent = 1, errors = [], vars = {}, var_usage = Map.empty, full_mimics = [],
     funccache = [], evobjs = [], ext_pdxinfo = Map.empty, ext_ptl = Map.empty,
     script_tags = Map.empty, blocks = bs, self_evnames = [], comments_block = [],
     root_evobj = [] \<rparr>"

definition push_funccache :: "ctx \<Rightarrow> ctx" where
  "push_funccache c = c\<lparr>funccache := funccache c @ [{||}]\<rparr>"

definition pop_funccache :: "ctx \<Rightarrow> ctx" where
  "pop_funccache c = c\<lparr>funccache := butlast (funccache c)\<rparr>"

definition get_funccache :: "ctx \<Rightarrow> string fset option" where
  "get_funccache c = (if funccache c = [] then None else Some (last (funccache c)))"

definition push_evobj :: "string \<Rightarrow> ctx \<Rightarrow> ctx" where
  "push_evobj obj c = c\<lparr>evobjs := evobjs c @ [obj]\<rparr>"

definition pop_evobj :: "ctx \<Rightarrow> ctx" where
  "pop_evobj c = c\<lparr>evobjs := butlast (evobjs c)\<rparr>"

definition get_evobj :: "ctx \<Rightarrow> string option" where
  "get_evobj c = (if evobjs c = [] then None else Some (last (evobjs c)))"

text \<open>\<^verbatim>\<open>ctx.get_funccache().add(line)\<close>: the set on top of the stack is updated in place.\<close>

definition funccache_add :: "string \<Rightarrow> ctx \<Rightarrow> ctx option" where
  "funccache_add line c = do {
     top \<leftarrow> get_funccache c;
     Some (c\<lparr>funccache := butlast (funccache c) @ [finsert line top]\<rparr>)
   }"

definition add_script_tag :: "string \<Rightarrow> string \<Rightarrow> ctx \<Rightarrow> string \<times> ctx" where
  "add_script_tag scriptsrc name c =
     (let san_name = ''__OPTTAG__'' @ py_replace (py_replace (scriptsrc @ ''_'' @ name) ''-'' ''_'') '' '' ''_''
      in if san_name \<in> dom (script_tags c) then (san_name, c)
         else (san_name, c\<lparr>script_tags := (script_tags c)(san_name \<mapsto> (scriptsrc, name))\<rparr>))"

text \<open>\<^verbatim>\<open>pingvar\<close>, on a name that is a string.\<close>

definition pingvar :: "string \<Rightarrow> ctx \<Rightarrow> string \<times> ctx" where
  "pingvar varname c =
     (if CHR ''.'' \<in> set varname then (varname, c)
      else if startswith varname ''__PTLE_'' then (varname, c)
      else
        let c = c\<lparr>var_usage := (var_usage c)
                  (varname \<mapsto> (case var_usage c varname of None \<Rightarrow> 0 | Some k \<Rightarrow> k) + 1)\<rparr>;
            varname = (if startswith varname ''__'' then ''__'' @ varname else varname);
            varname = sanitize_varname varname
        in (varname, c\<lparr>vars := insert varname (vars c)\<rparr>))"

text \<open>\<^verbatim>\<open>gi\<close>: two spaces for every level of indentation.\<close>

definition gi :: "ctx \<Rightarrow> string" where
  "gi c = concat (replicate (nat (indent c)) ''  '')"

text \<open>\<^verbatim>\<open>commentconfigure\<close>: \<^verbatim>\<open>key, value = conf.split("=")\<close> raises unless there are exactly two
  parts.\<close>

definition commentconfigure :: "string \<Rightarrow> string \<Rightarrow> ctx \<Rightarrow> ctx option" where
  "commentconfigure mode conf c =
     (case split_on CHR ''='' conf of
        [k, v] \<Rightarrow>
          (let key = strip k; val = strip v;
               c = (if mode = ''PTL''
                    then c\<lparr>ext_ptl := (ext_ptl c)(key \<mapsto>
                           (if val = ''0'' \<or> val = ''False'' \<or> val = ''false'' then CfgFalse else CfgStr val))\<rparr>
                    else c);
               c = (if mode = ''PDXINFO'' then c\<lparr>ext_pdxinfo := (ext_pdxinfo c)(key \<mapsto> val)\<rparr> else c)
           in Some c)
      | _ \<Rightarrow> None)"

section \<open>Tables\<close>

definition RELASSIGN :: bool where
  "RELASSIGN = True"

definition compdict :: "(string \<times> string) list" where
  "compdict = [(''lt'', ''<''), (''lte'', ''<=''), (''gt'', ''>''), (''gte'', ''>=''),
     (''eq'', ''==''), (''neq'', ''~='')]"

definition funclist :: "string list" where
  "funclist = [''goto'', ''shake'', ''fin'', ''hide'', ''draw'', ''bpm'', ''sound'', ''invert'',
     ''frame'', ''fill'', ''swap'', ''label'', ''restore'', ''store'', ''toss'', ''wait'', ''say'',
     ''ask'', ''menu'', ''option'', ''act'', ''loop'', ''once'', ''stop'', ''tell'', ''ignore'',
     ''listen'', ''log'', ''dump'', ''wait'', ''window'', ''crop'', ''play'']"

definition exfuncs :: "string list" where
  "exfuncs = [''type'', ''id'', ''solid'', ''frame'', ''floor'', ''round'', ''ceil'', ''invert'',
     ''name'', ''random'', ''sine'', ''cosine'', ''tangent'', ''degrees'', ''radians'', ''lpad'',
     ''rpad'']"

definition inlinefuncs :: "(string \<times> string) list" where
  "inlinefuncs = [
     (''__fn_frame'', ''{0}.frame = {1}''),
     (''__fn_inc'', ''{0} += 1''),
     (''__fn_dec'', ''{0} -= 1''),
     (''__fn_log'', ''__print({0})''),
     (''__fn_fill'', ''__setcolour(__fillcolours[{4}]); __fillrect({0} * __pix8scale, {1} * __pix8scale, {2} * __pix8scale, {3} * __pix8scale)''),
     (''__ex_frame'', ''({0}.frame or 0)''),
     (''__ex_invert'', ''(__pulp.invert and 1 or 0)''),
     (''__ex_degrees'', ''({0} * 360 / __tau)''),
     (''__ex_radians'', ''({0} * __tau / 360)'')]"

definition funcargs :: "(string \<times> string list) list" where
  "funcargs = [
     (''frame'', [''actor'']),
     (''goto'', [''x'', ''y'']),
     (''tell'', [''event'', ''evname'', ''block'']),
     (''swap'', [''actor'']),
     (''label'', [''x'', ''y'', ''len'', ''lines'']),
     (''draw'', [''x'', ''y'']),
     (''solid'', [''x'', ''y'']),
     (''wait'', [''actor'', ''event'', ''evname'', ''block'']),
     (''say'', [''x'', ''y'', ''w'', ''h'', ''actor'', ''event'', ''evname'', ''block'']),
     (''ask'', [''x'', ''y'', ''w'', ''h'', ''actor'', ''event'', ''evname'', ''block'']),
     (''menu'', [''x'', ''y'', ''w'', ''h'', ''actor'', ''event'', ''evname'', ''block'']),
     (''option'', [''actor'', ''event'', ''evname'', ''block'']),
     (''window'', [''x'', ''y'', ''w'', ''h'']),
     (''fill'', [''x'', ''y'', ''w'', ''h'']),
     (''crop'', [''x'', ''y'', ''w'', ''h'']),
     (''play'', [''actor'', ''event'', ''evname'', ''block'']),
     (''once'', [''actor'', ''event'', ''evname'', ''block'']),
     (''type'', [''x'', ''y'']),
     (''id'', [''x'', ''y''])]"

definition staticfuncs :: "(string \<times> string) list" where
  "staticfuncs = [(''floor'', ''__floor''), (''ceil'', ''__ceil''), (''round'', ''__round''),
     (''sine'', ''__sin''), (''cosine'', ''__cos''), (''sine'', ''__sin''),
     (''tangent'', ''__tan''), (''random'', ''__random'')]"

section \<open>Small helpers of the expression compiler\<close>

definition escape_string :: "string \<Rightarrow> string" where
  "escape_string s =
     py_replace (py_replace (py_replace (py_replace s
       [CHR 0x5C] [CHR 0x5C, CHR 0x5C])
       [CHR 0x0A] [CHR 0x5C, CHR ''n''])
       [CHR 0x0C] [CHR 0x5C, CHR ''f''])
       [CHR 0x22] [CHR 0x5C, CHR 0x22]"

definition istoken :: "node \<Rightarrow> bool" where
  "istoken x = (case x of
       PStr s \<Rightarrow>
         if CHR '' '' \<in> set s then False
         else if CHR ''-'' \<in> set s then False
         else if length s = 0 then False
         else if hd s \<in> set ''0123456789'' then False
         else True
     | _ \<Rightarrow> False)"

text \<open>An \<^verbatim>\<open>assert\<close>, and the test \<^verbatim>\<open>type(x) == list and x[0] == tag\<close> (which raises on an
  empty list).\<close>

definition assert_that :: "bool \<Rightarrow> unit option" where
  "assert_that b = (if b then Some () else None)"

definition is_tagged :: "node \<Rightarrow> string \<Rightarrow> bool option" where
  "is_tagged x tag = (case x of
       PList ys \<Rightarrow> do { h \<leftarrow> nth_opt ys 0; Some (h = PStr tag) }
     | _ \<Rightarrow> Some False)"

text \<open>
  \<^verbatim>\<open>ctx.blocks[x]\<close> hands a block body to \<^verbatim>\<open>transpile_commands\<close> by reference: the command
  objects in it are the ones of the table, and \<^verbatim>\<open>optimize_name_ref\<close> overwrites an operand of
  such a command in place. So a block is passed as its position in the table, and a command
  as the pair of its block's position and its own position there.
\<close>

definition block_ref :: "ctx \<Rightarrow> node \<Rightarrow> nat option" where
  "block_ref c x = (case x of
       PInt i \<Rightarrow>
         (let n = int (length (blocks c)); j = (if i < 0 then n + i else i)
          in if 0 \<le> j \<and> j < n then Some (nat j) else None)
     | _ \<Rightarrow> None)"

definition cmd_at :: "ctx \<Rightarrow> nat \<times> nat \<Rightarrow> node list option" where
  "cmd_at c loc = do {
     commands \<leftarrow> nth_opt (blocks c) (fst loc);
     command \<leftarrow> nth_opt commands (snd loc);
     (case command of PList cmd \<Rightarrow> Some cmd | _ \<Rightarrow> None)
   }"

text \<open>\<^verbatim>\<open>tile_ids\<close> is the module's table of tile names, filled by the driver; it is a parameter
  of every function that reads it.\<close>

definition optimize_name_ref :: "(string \<rightharpoonup> int) \<Rightarrow> nat \<times> nat \<Rightarrow> nat \<Rightarrow> ctx \<Rightarrow> (bool \<times> ctx) option" where
  "optimize_name_ref tile_ids loc idx c = do {
     cmd \<leftarrow> cmd_at c loc;
     if length cmd > idx then
       (case cmd ! idx of
          PStr name \<Rightarrow>
            (case tile_ids name of
               Some tid \<Rightarrow>
                 Some (True, c\<lparr>blocks := (blocks c)[fst loc := (blocks c ! fst loc)
                   [snd loc := PList (cmd[idx := PList [PStr ''optimized-id'', PInt tid, PStr name]])]]\<rparr>)
             | None \<Rightarrow> Some (False, c))
        | _ \<Rightarrow> Some (False, c))
     else Some (False, c)
   }"

definition cache_as :: "string \<Rightarrow> string \<Rightarrow> ctx \<Rightarrow> (string \<times> ctx) option" where
  "cache_as line name c = do { c \<leftarrow> funccache_add line c; Some (name, c) }"

definition remap_special_varname :: "string \<Rightarrow> ctx \<Rightarrow> (string \<times> ctx) option" where
  "remap_special_varname varname c =
     (if varname = ''event.px'' then cache_as ''local __event_px = __pulp.player.x'' ''__event_px'' c
      else if varname = ''event.py'' then cache_as ''local __event_py = __pulp.player.y'' ''__event_py'' c
      else if varname = ''event.x'' then cache_as ''local __event_x = __actor.x or __pulp.player.x'' ''__event_x'' c
      else if varname = ''event.y'' then cache_as ''local __event_y = __actor.y or __pulp.player.y'' ''__event_y'' c
      else if varname = ''event.dx'' then cache_as ''local __event_dx = event.dx or 0'' ''__event_dx'' c
      else if varname = ''event.dy'' then cache_as ''local __event_dy = event.dy or 0'' ''__event_dy'' c
      else if varname = ''event.tile'' then cache_as ''local __event_tile = __actor.name or 0'' ''__event_tile'' c
      else if varname = ''event.room'' then Some (''event.room.name'', c)
      else if varname = ''event.player'' then Some (''__pulp.player.name'', c)
      else if varname = ''datetime.year'' then Some (''__getTime().year'', c)
      else if varname = ''datetime.year99'' then Some (''--[[(year99)]] (__getTime().year % 100)'', c)
      else if varname = ''datetime.month'' then Some (''__getTime().month'', c)
      else if varname = ''datetime.day'' then Some (''__getTime().day'', c)
      else if varname = ''datetime.weekday'' then Some (''(__getTime().weekday - 1)'', c)
      else if varname = ''datetime.day'' then Some (''__getTime().day'', c)
      else if varname = ''datetime.hour'' then Some (''__getTime().hour'', c)
      else if varname = ''datetime.hour12'' then Some (''--[[(hour12)]] ((__getTime().hour % 12) + 1)'', c)
      else if varname = ''datetime.minute'' then Some (''__getTime().minute'', c)
      else if varname = ''datetime.second'' then Some (''__getTime().second'', c)
      else if varname = ''datetime.millisecond'' then Some (''__getTime().millisecond --[[(PTL-only?)]]'', c)
      else if varname = ''datetime.ampm''
        then Some (''--[[(ampm)]] (__getTime().hour < 12 and \"am\" or \"pm\")'', c)
      else if varname = ''datetime.AMPM''
        then Some (''--[[(AMPM)]] (__getTime().hour < 12 and \"AM\" or \"PM\")  --[[(PTL-only?)]]'', c)
      else if varname = ''datetime.timestamp'' then Some (''__getSecondsSinceEpoch()'', c)
      else if varname = ''__PTLE_SMOOTH_MOVEMENT_SPEED'' then Some (''__pulp.PTLE_SMOOTH_MOVEMENT_SPEED'', c)
      else if varname = ''__PTLE_SMOOTH_OFFSET_X'' then Some (''__pulp.PTLE_SMOOTH_OFFSET_X'', c)
      else if varname = ''__PTLE_SMOOTH_OFFSET_Y'' then Some (''__pulp.PTLE_SMOOTH_OFFSET_Y'', c)
      else if varname = ''__PTLE_CONFIRM_DAS'' then Some (''__pulp.PTLE_CONFIRM_DAS'', c)
      else if varname = ''__PTLE_CANCEL_DAS'' then Some (''__pulp.PTLE_CANCEL_DAS'', c)
      else if varname = ''__PTLE_V_DAS'' then Some (''__pulp.PTLE_V_DAS'', c)
      else if varname = ''__PTLE_H_DAS'' then Some (''__pulp.PTLE_H_DAS'', c)
      else Some (varname, c))"

section \<open>Expression compiler\<close>

text \<open>
  \<^verbatim>\<open>decode_rvalue\<close>, \<^verbatim>\<open>transpile_commands\<close> and \<^verbatim>\<open>op_block\<close> call each other through the block
  table, and nothing bounds that recursion but Python's recursion limit. Every other function
  is written once, with the three recursive callees as parameters: \<open>dec\<close> stands for
  \<^verbatim>\<open>decode_rvalue\<close>, \<open>tcs\<close> for \<^verbatim>\<open>transpile_commands\<close> and \<open>opb\<close> for \<^verbatim>\<open>op_block\<close>. The last
  section ties them together by recursion on the depth that is left.
\<close>

type_synonym dec_t = "node \<Rightarrow> ctx \<Rightarrow> (string \<times> ctx) option"
type_synonym tcs_t = "nat \<Rightarrow> bool \<Rightarrow> ctx \<Rightarrow> (string \<times> ctx) option"
type_synonym opb_t = "node \<Rightarrow> string \<Rightarrow> string \<Rightarrow> string option \<Rightarrow> ctx \<Rightarrow> (string \<times> ctx) option"

text \<open>A variable name is a string: on any other node \<^verbatim>\<open>pingvar\<close> raises (a list that has the
  element \<^verbatim>\<open>"."\<close> is the one exception: the source hands it on and fails or prints it
  later; the model fails at once).\<close>

definition as_str :: "node \<Rightarrow> string option" where
  "as_str x = (case x of PStr s \<Rightarrow> Some s | _ \<Rightarrow> None)"

definition ex_get :: "node list \<Rightarrow> ctx \<Rightarrow> (string \<times> ctx) option" where
  "ex_get expression c = do {
     e1 \<leftarrow> nth_opt expression 1;
     varname \<leftarrow> as_str e1;
     let (varname, c) = pingvar varname c;
     remap_special_varname varname c
   }"

fun ex_format_loop :: "dec_t \<Rightarrow> node list \<Rightarrow> bool \<Rightarrow> string \<Rightarrow> ctx \<Rightarrow> (string \<times> ctx) option" where
  "ex_format_loop dec [] first s c = Some (s, c)"
| "ex_format_loop dec (component # rest) first s c = do {
     let s = (if \<not> first then s @ '' .. '' else s);
     (t, c) \<leftarrow> dec component c;
     let s = (case component of PStr _ \<Rightarrow> s @ t | _ \<Rightarrow> s @ ''__tostring('' @ t @ '')'');
     ex_format_loop dec rest False s c
   }"

definition ex_format :: "dec_t \<Rightarrow> node list \<Rightarrow> ctx \<Rightarrow> (string \<times> ctx) option" where
  "ex_format dec expression c = ex_format_loop dec (drop 1 expression) True [] c"

definition ex_embed :: "dec_t \<Rightarrow> node list \<Rightarrow> ctx \<Rightarrow> (string \<times> ctx) option" where
  "ex_embed dec expression c = do {
     e1 \<leftarrow> nth_opt expression 1;
     (t, c) \<leftarrow> dec e1 c;
     Some (''__pulp.__ex_embed('' @ t @ '')'', c)
   }"

definition ex_subroutine :: "tcs_t \<Rightarrow> node list \<Rightarrow> ctx \<Rightarrow> (string \<times> ctx) option" where
  "ex_subroutine tcs expression c = do {
     let s = ''function(__actor, event, evname)\<newline>'';
     let c = c\<lparr>indent := indent c + 2\<rparr>;
     e1 \<leftarrow> nth_opt expression 1;
     b \<leftarrow> block_ref c e1;
     (t, c) \<leftarrow> tcs b True c;
     let c = c\<lparr>indent := indent c - 2\<rparr>;
     Some (s @ t @ gi c @ ''  end'', c)
   }"

section \<open>Function-call resolver\<close>

text \<open>The loop of \<^verbatim>\<open>opex_func\<close> over \<^verbatim>\<open>cmd[1:]\<close>, which fills \<^verbatim>\<open>mainargs\<close> and \<^verbatim>\<open>setargs\<close>.\<close>

fun opex_args :: "dec_t \<Rightarrow> node list \<Rightarrow> string list \<Rightarrow> (string \<rightharpoonup> string) \<Rightarrow> ctx
    \<Rightarrow> ((string list \<times> (string \<rightharpoonup> string)) \<times> ctx) option" where
  "opex_args dec [] mainargs setargs c = Some ((mainargs, setargs), c)"
| "opex_args dec (arg # rest) mainargs setargs c =
     (case arg of
        PList ys \<Rightarrow> do {
          h \<leftarrow> nth_opt ys 0;
          if h = PStr ''xy'' then do {
            a1 \<leftarrow> nth_opt ys 1;
            (x, c) \<leftarrow> dec a1 c;
            a2 \<leftarrow> nth_opt ys 2;
            (y, c) \<leftarrow> dec a2 c;
            opex_args dec rest mainargs (setargs(''x'' \<mapsto> x, ''y'' \<mapsto> y)) c
          } else if h = PStr ''rect'' then do {
            a1 \<leftarrow> nth_opt ys 1;
            (x, c) \<leftarrow> dec a1 c;
            a2 \<leftarrow> nth_opt ys 2;
            (y, c) \<leftarrow> dec a2 c;
            a3 \<leftarrow> nth_opt ys 3;
            (w, c) \<leftarrow> dec a3 c;
            if length ys > 4 then do {
              a4 \<leftarrow> nth_opt ys 4;
              (hh, c) \<leftarrow> dec a4 c;
              opex_args dec rest mainargs (setargs(''x'' \<mapsto> x, ''y'' \<mapsto> y, ''w'' \<mapsto> w, ''h'' \<mapsto> hh)) c
            } else opex_args dec rest mainargs (setargs(''x'' \<mapsto> x, ''y'' \<mapsto> y, ''w'' \<mapsto> w)) c
          } else if h = PStr ''block'' then do {
            (blk, c) \<leftarrow> dec arg c;
            opex_args dec rest mainargs (setargs(''block'' \<mapsto> blk)) c
          } else do {
            (a, c) \<leftarrow> dec arg c;
            opex_args dec rest (mainargs @ [a]) setargs c
          }
        }
      | _ \<Rightarrow> do {
          (a, c) \<leftarrow> dec arg c;
          opex_args dec rest (mainargs @ [a]) setargs c
        })"

definition init_setargs :: "string \<rightharpoonup> string" where
  "init_setargs = [''actor'' \<mapsto> ''__actor'', ''event'' \<mapsto> ''event'', ''evname'' \<mapsto> ''__evname'']"

text \<open>\<^verbatim>\<open>for argname in funcargs[op][::-1]\<close>: the named slots are put in front, the last one
  first.\<close>

definition pad_args :: "string \<Rightarrow> (string \<rightharpoonup> string) \<Rightarrow> string list \<Rightarrow> string list" where
  "pad_args op setargs mainargs = (case map_of funcargs op of
       Some names \<Rightarrow>
         foldl (\<lambda>mainargs argname.
                  (case setargs argname of Some v \<Rightarrow> [v] @ mainargs | None \<Rightarrow> [''nil''] @ mainargs))
               mainargs (rev names)
     | None \<Rightarrow> mainargs)"

text \<open>\<^verbatim>\<open>for i in range(len(mainargs)): s = s.replace("{" + str(i) + "}", mainargs[i])\<close>.\<close>

definition fill_template :: "string \<Rightarrow> string list \<Rightarrow> string" where
  "fill_template s mainargs =
     foldl (\<lambda>s i. py_replace s (''{'' @ str_nat i @ ''}'') (mainargs ! i)) s [0..<length mainargs]"

fun join_args :: "string list \<Rightarrow> bool \<Rightarrow> string \<Rightarrow> string" where
  "join_args [] first s = s"
| "join_args (arg # rest) first s = join_args rest False ((if first then s else s @ '', '') @ arg)"

definition opex_func :: "dec_t \<Rightarrow> node list \<Rightarrow> string \<Rightarrow> string \<Rightarrow> ctx \<Rightarrow> (string \<times> ctx) option" where
  "opex_func dec cmd op prefix c = do {
     ((mainargs, setargs), c) \<leftarrow> opex_args dec (drop 1 cmd) [] init_setargs c;
     let mainargs = pad_args op setargs mainargs;
     (case map_of inlinefuncs (prefix @ op) of
        Some template \<Rightarrow> Some (fill_template template mainargs, c)
      | None \<Rightarrow>
          (let s = (case map_of staticfuncs op of
                      Some f \<Rightarrow> f @ ''(''
                    | None \<Rightarrow> ''__pulp.'' @ prefix @ op @ ''('')
           in Some (join_args mainargs True s @ '')'', c)))
   }"

definition ex_name :: "dec_t \<Rightarrow> node list \<Rightarrow> ctx \<Rightarrow> (string \<times> ctx) option" where
  "ex_name dec expression c = do {
     e1 \<leftarrow> nth_opt expression 1;
     isxy \<leftarrow> is_tagged e1 ''xy'';
     if isxy then do {
       ex \<leftarrow> subscript e1 1;
       (x, c) \<leftarrow> dec ex c;
       ey \<leftarrow> subscript e1 2;
       (y, c) \<leftarrow> dec ey c;
       Some (''__roomtiles['' @ y @ ''][''  @ x @ ''].name'', c)
     } else opex_func dec expression ''name'' ''__ex_'' c
   }"

definition decode_rvalue_body :: "dec_t \<Rightarrow> tcs_t \<Rightarrow> node \<Rightarrow> ctx \<Rightarrow> (string \<times> ctx) option" where
  "decode_rvalue_body dec tcs expression c = (case expression of
       PStr s \<Rightarrow> Some (''\"'' @ escape_string s @ ''\"'', c)
     | PInt i \<Rightarrow> Some (str_int i, c)
     | PFloat t \<Rightarrow> Some (t, c)
     | PNone \<Rightarrow> Some (''nil'', c)
     | PList xs \<Rightarrow> do {
         h \<leftarrow> nth_opt xs 0;
         if h = PStr ''get'' then ex_get xs c
         else if h = PStr ''optimized-id'' then do {
           e2 \<leftarrow> nth_opt xs 2;
           e1 \<leftarrow> nth_opt xs 1;
           Some (''--[[('' @ py_str e2 @ '')]] '' @ py_str e1, c)
         }
         else if h = PStr ''format'' then ex_format dec xs c
         else if h = PStr ''embed'' then ex_embed dec xs c
         else if h = PStr ''name'' then ex_name dec xs c
         else if h \<in> PStr ` set exfuncs then do { ex \<leftarrow> as_str h; opex_func dec xs ex ''__ex_'' c }
         else if h = PStr ''block'' then ex_subroutine tcs xs c
         else do {
           ex \<leftarrow> as_str h;
           Some (''nil --[[unknown expression code '' @ [CHR 0x27] @ ex @ [CHR 0x27] @ '']]'',
                 c\<lparr>errors := errors c @ [''unknown expression code: '' @ ex]\<rparr>)
         }
       })"

section \<open>Command compiler\<close>

definition op_set :: "dec_t \<Rightarrow> node list \<Rightarrow> string \<Rightarrow> ctx \<Rightarrow> (string \<times> ctx) option" where
  "op_set dec cmd operator c = do {
     lv \<leftarrow> nth_opt cmd 1;
     lvalue \<leftarrow> as_str lv;
     let (lvalue, c) = pingvar lvalue c;
     rv \<leftarrow> nth_opt cmd 2;
     (rvalue, c) \<leftarrow> dec rv c;
     if operator = [] \<or> RELASSIGN
     then Some (lvalue @ '' '' @ operator @ ''= '' @ rvalue, c)
     else Some (lvalue @ '' = '' @ lvalue @ '' '' @ operator @ '' '' @ rvalue, c)
   }"

text \<open>The body of an \<^verbatim>\<open>if\<close>, \<^verbatim>\<open>while\<close> or \<^verbatim>\<open>else\<close>: \<^verbatim>\<open>assert(block[0] == "block")\<close>, then the
  block is compiled one level deeper.\<close>

definition sub_block :: "tcs_t \<Rightarrow> node \<Rightarrow> ctx \<Rightarrow> (string \<times> ctx) option" where
  "sub_block tcs block c = do {
     b0 \<leftarrow> subscript block 0;
     assert_that (b0 = PStr ''block'');
     let c = c\<lparr>indent := indent c + 1\<rparr>;
     b1 \<leftarrow> subscript block 1;
     b \<leftarrow> block_ref c b1;
     (t, c) \<leftarrow> tcs b False c;
     let c = c\<lparr>indent := indent c - 1\<rparr>;
     Some (t, c)
   }"

text \<open>The loop of \<^verbatim>\<open>op_block\<close> over \<^verbatim>\<open>cmd[3:]\<close>.\<close>

fun op_block_subs :: "tcs_t \<Rightarrow> opb_t \<Rightarrow> node list \<Rightarrow> string \<Rightarrow> ctx \<Rightarrow> (string \<times> ctx) option" where
  "op_block_subs tcs opb [] s c = Some (s, c)"
| "op_block_subs tcs opb (sub # rest) s c = do {
     h \<leftarrow> subscript sub 0;
     if h = PStr ''elseif'' then do {
       let g = gi c;
       (t, c) \<leftarrow> opb sub ''elseif'' ''then'' None c;
       op_block_subs tcs opb rest (s @ g @ t) c
     } else if h = PStr ''else'' then do {
       let s = s @ gi c @ ''else\<newline>'';
       block \<leftarrow> subscript sub 1;
       (t, c) \<leftarrow> sub_block tcs block c;
       op_block_subs tcs opb rest (s @ t) c
     } else None
   }"

definition op_block_body :: "dec_t \<Rightarrow> tcs_t \<Rightarrow> opb_t \<Rightarrow> node \<Rightarrow> string \<Rightarrow> string \<Rightarrow> string option
    \<Rightarrow> ctx \<Rightarrow> (string \<times> ctx) option" where
  "op_block_body dec tcs opb cmd statement follow endkw c = do {
     condition \<leftarrow> subscript cmd 1;
     comparison \<leftarrow> subscript condition 0;
     key \<leftarrow> as_str comparison;
     compsym \<leftarrow> map_of compdict key;
     cl \<leftarrow> subscript condition 1;
     (compl, c) \<leftarrow>
       (if istoken cl then do {
          name \<leftarrow> as_str cl;
          let (v, c) = pingvar name c;
          remap_special_varname v c
        } else dec cl c);
     cr \<leftarrow> subscript condition 2;
     (compr, c) \<leftarrow> dec cr c;
     block \<leftarrow> subscript cmd 2;
     let s = statement @ '' '' @ compl @ '' '' @ compsym @ '' '' @ compr @ '' '' @ follow @ ''\<newline>'';
     (t, c) \<leftarrow> sub_block tcs block c;
     subs \<leftarrow> (case cmd of PList xs \<Rightarrow> Some (drop 3 xs) | _ \<Rightarrow> None);
     (s, c) \<leftarrow> op_block_subs tcs opb subs (s @ t) c;
     (case endkw of
        Some e \<Rightarrow> if e \<noteq> [] then Some (s @ gi c @ e, c) else Some (s, c)
      | None \<Rightarrow> Some (s, c))
   }"

text \<open>The loop of \<^verbatim>\<open>op_call\<close> over the tags.\<close>

fun call_tags :: "string list \<Rightarrow> string \<Rightarrow> string \<Rightarrow> string \<Rightarrow> ctx \<Rightarrow> (string \<times> string) \<times> ctx" where
  "call_tags [] fnstr fnbase comment c = ((fnbase, comment), c)"
| "call_tags (tag # rest) fnstr fnbase comment c =
     (if startswith tag ''[SCRIPT:'' then
        (let scriptsrc = butlast (drop 8 tag);
             (fnbase, c) = add_script_tag scriptsrc (butlast (tl fnstr)) c
         in call_tags rest fnstr fnbase (comment @ '' '' @ tag) c)
      else call_tags rest fnstr fnbase comment c)"

definition op_call :: "dec_t \<Rightarrow> node list \<Rightarrow> ctx \<Rightarrow> string list \<Rightarrow> (string \<times> ctx) option" where
  "op_call dec cmd c tags = do {
     name \<leftarrow> nth_opt cmd 1;
     ((fnstr, callfn), c) \<leftarrow>
       (if istoken name then do {
          n \<leftarrow> as_str name;
          evobj \<leftarrow> get_evobj c;
          Some ((''\"'' @ n @ ''\"'', evobj @ ''.'' @ n), c)
        } else do {
          (fnstr, c) \<leftarrow> dec name c;
          evobj \<leftarrow> get_evobj c;
          Some ((fnstr, evobj @ ''['' @ fnstr @ '']''), c)
        });
     evobj \<leftarrow> get_evobj c;
     let fnbase = '';('' @ callfn @ '' or '' @ evobj @ ''.any)'';
     let comment = ''--[call \"'' @ butlast (tl fnstr) @ ''\"]'';
     let (fnbase, comment) =
       (if ''[DIRECT]'' \<in> set tags then (callfn, comment @ '' [DIRECT]'') else (fnbase, comment));
     ((fnbase, comment), c) \<leftarrow>
       (if evobj = ''__self'' then do {
          c \<leftarrow> funccache_add (''local __self = '' @ root_evobj c @ '' --[this script]'') c;
          if istoken name then
            (if name \<in> PStr ` set (self_evnames c) then Some ((callfn, []), c)
             else Some ((''__self.any'', comment @ '' [doesn'' @ [CHR 0x27] @ ''t exist, so any]''), c))
          else Some ((fnbase, comment), c)
        } else Some ((fnbase, comment), c));
     let ((fnbase, comment), c) = call_tags tags fnstr fnbase comment c;
     Some (fnbase @ ''(__actor, event, '' @ fnstr @ '') '' @ comment, c)
   }"

definition op_emit :: "dec_t \<Rightarrow> node list \<Rightarrow> ctx \<Rightarrow> (string \<times> ctx) option" where
  "op_emit dec cmd c = do {
     e1 \<leftarrow> nth_opt cmd 1;
     (t, c) \<leftarrow> dec e1 c;
     Some (''__pulp:emit('' @ t @ '', event)'', c)
   }"

definition is_int :: "node \<Rightarrow> bool" where
  "is_int x = (case x of PInt _ \<Rightarrow> True | _ \<Rightarrow> False)"

definition op_mimic :: "(string \<rightharpoonup> int) \<Rightarrow> dec_t \<Rightarrow> nat \<times> nat \<Rightarrow> ctx \<Rightarrow> (string \<times> ctx) option" where
  "op_mimic tile_ids dec loc c = do {
     (optimized, c) \<leftarrow> optimize_name_ref tile_ids loc 1 c;
     cmd \<leftarrow> cmd_at c loc;
     target \<leftarrow> nth_opt cmd 1;
     if optimized \<or> is_int target then do {
       let s = ''do -- (mimic)\<newline>'';
       let c = c\<lparr>indent := indent c + 1\<rparr>;
       let g = gi c;
       (t, c) \<leftarrow> dec target c;
       let s = s @ g @ ''local __mimic_target__ = (__pulp.tiles['' @ t @ ''] or __pulp.EMPTY).script;\<newline>'';
       let s = s @ gi c @ ''(__mimic_target__[__evname] or __mimic_target__.any)(__actor, event, __evname)\<newline>'';
       let c = c\<lparr>indent := indent c - 1\<rparr>;
       Some (s @ gi c @ ''end'', c)
     } else do {
       let s = ''do -- (mimic)\<newline>'';
       let c = c\<lparr>indent := indent c + 1\<rparr>;
       let g = gi c;
       (t, c) \<leftarrow> dec target c;
       let s = s @ g @ ''local __mimic_target__ = __pulp:getScript('' @ t @ '') or __pulp.EMPTY;\<newline>'';
       let s = s @ gi c @ ''(__mimic_target__[__evname] or __mimic_target__.any)(__actor, event, __evname)\<newline>'';
       let c = c\<lparr>indent := indent c - 1\<rparr>;
       Some (s @ gi c @ ''end'', c)
     }
   }"

text \<open>The nested body of the two inline forms of \<^verbatim>\<open>tell\<close>: the dispatch object is switched to
  \<^verbatim>\<open>__actor.script\<close> around a block that is compiled with a cache frame of its own.\<close>

definition tell_body :: "tcs_t \<Rightarrow> node \<Rightarrow> ctx \<Rightarrow> (string \<times> ctx) option" where
  "tell_body tcs block c = do {
     let c = c\<lparr>indent := indent c + 1\<rparr>;
     let c = push_evobj ''__actor.script'' c;
     b1 \<leftarrow> subscript block 1;
     b \<leftarrow> block_ref c b1;
     (t, c) \<leftarrow> tcs b True c;
     let c = pop_evobj c;
     let c = c\<lparr>indent := indent c - 1\<rparr>;
     Some (t, c)
   }"

text \<open>The last form of \<^verbatim>\<open>tell\<close>: the target is resolved if it names a tile, and the command
  goes through \<^verbatim>\<open>opex_func\<close> with the dispatch object switched.\<close>

definition tell_call :: "(string \<rightharpoonup> int) \<Rightarrow> dec_t \<Rightarrow> nat \<times> nat \<Rightarrow> ctx \<Rightarrow> (string \<times> ctx) option" where
  "tell_call tile_ids dec loc c = do {
     (optimized, c) \<leftarrow> optimize_name_ref tile_ids loc 1 c;
     let c = push_evobj ''__actor.script'' c;
     cmd \<leftarrow> cmd_at c loc;
     (s, c) \<leftarrow> opex_func dec cmd ''tell'' ''__fn_'' c;
     let c = pop_evobj c;
     Some (s, c)
   }"

definition op_tell :: "(string \<rightharpoonup> int) \<Rightarrow> dec_t \<Rightarrow> tcs_t \<Rightarrow> nat \<times> nat \<Rightarrow> ctx \<Rightarrow> (string \<times> ctx) option" where
  "op_tell tile_ids dec tcs loc c = do {
     cmd \<leftarrow> cmd_at c loc;
     target \<leftarrow> nth_opt cmd 1;
     isxy \<leftarrow> is_tagged target ''xy'';
     if isxy then do {
       let s = ''do --[tell x,y to]\<newline>'';
       let c = c\<lparr>indent := indent c + 1\<rparr>;
       block \<leftarrow> nth_opt cmd 2;
       b0 \<leftarrow> subscript block 0;
       assert_that (b0 = PStr ''block'');
       let g = gi c;
       ey \<leftarrow> subscript target 2;
       (y, c) \<leftarrow> dec ey c;
       ex \<leftarrow> subscript target 1;
       (x, c) \<leftarrow> dec ex c;
       let s = s @ g @ ''local __actor = __roomtiles['' @ y @ ''][''  @ x @ '']\<newline>'';
       let s = s @ gi c @ ''if __actor and __actor.tile then\<newline>'';
       (t, c) \<leftarrow> tell_body tcs block c;
       let s = s @ t @ gi c @ ''end\<newline>'';
       let c = c\<lparr>indent := indent c - 1\<rparr>;
       Some (s @ gi c @ ''end\<newline>'', c)
     } else do {
       isget \<leftarrow> is_tagged target ''get'';
       implicit \<leftarrow> (if isget then do {
           t1 \<leftarrow> subscript target 1;
           Some (t1 \<in> {PStr ''event.room'', PStr ''event.game'', PStr ''event.player''})
         } else Some False);
       if implicit then do {
         t1 \<leftarrow> subscript target 1;
         tname \<leftarrow> as_str t1;
         let tname = (if tname = ''event.player'' then ''__pulp.player'' else tname);
         let s = ''do --[tell '' @ tname @ '' to]\<newline>'';
         let c = c\<lparr>indent := indent c + 1\<rparr>;
         block \<leftarrow> nth_opt cmd 2;
         b0 \<leftarrow> subscript block 0;
         assert_that (b0 = PStr ''block'');
         let s = s @ gi c @ ''local __actor = '' @ tname @ ''\<newline>'';
         let s = s @ gi c @ ''if __actor then\<newline>'';
         (t, c) \<leftarrow> tell_body tcs block c;
         let s = s @ t @ gi c @ ''end\<newline>'';
         let c = c\<lparr>indent := indent c - 1\<rparr>;
         Some (s @ gi c @ ''end\<newline>'', c)
       } else tell_call tile_ids dec loc c
     }
   }"

definition op_inc :: "node list \<Rightarrow> string \<Rightarrow> ctx \<Rightarrow> (string \<times> ctx) option" where
  "op_inc cmd operator c = do {
     lv \<leftarrow> nth_opt cmd 1;
     lvalue \<leftarrow> as_str lv;
     Some (lvalue @ operator, c)
   }"

definition op_random :: "dec_t \<Rightarrow> node list \<Rightarrow> ctx \<Rightarrow> (string \<times> ctx) option" where
  "op_random dec cmd c =
     (if length cmd = 2 then do {
        (a, c) \<leftarrow> dec (cmd ! 1) c;
        Some (''__random('' @ a @ '')'', c)
      } else if length cmd = 3 then do {
        (a, c) \<leftarrow> dec (cmd ! 1) c;
        (b, c) \<leftarrow> dec (cmd ! 2) c;
        Some (''__random('' @ a @ '', '' @ b @ '')'', c)
      } else None)"

text \<open>
  \<^verbatim>\<open>idx < len(ctx.comments_block)\<close> and \<^verbatim>\<open>ctx.comments_block[idx]\<close>, for the index of a comment
  node. The index is an integer in every AST of the front end; a string or \<^verbatim>\<open>None\<close> raises
  in the comparison, and so does the model on a float (which the source compares, and then
  rejects as an index when it is small enough).
\<close>

definition lt_len :: "node \<Rightarrow> nat \<Rightarrow> bool option" where
  "lt_len idx n = (case idx of PInt i \<Rightarrow> Some (i < int n) | _ \<Rightarrow> None)"

definition comment_at :: "ctx \<Rightarrow> node \<Rightarrow> string option" where
  "comment_at c idx = (case idx of PInt i \<Rightarrow> py_index (comments_block c) i | _ \<Rightarrow> None)"

definition comment :: "node list \<Rightarrow> bool \<Rightarrow> ctx \<Rightarrow> (string \<times> ctx) option" where
  "comment cmd prevline c = do {
     let s = ''--'';
     idx \<leftarrow> nth_opt cmd 1;
     lt \<leftarrow> lt_len idx (length (comments_block c));
     comment \<leftarrow> (if lt then comment_at c idx else Some ''<comment missing>'');
     let s = (if CHR 0x0A \<in> set comment then s @ ''[['' else s);
     let stripcomment = strip comment;
     if startswith stripcomment ''[LUA]'' then
       (let s = drop (length ''[LUA]'') (strip comment)
        in Some (if startswith s '' '' then drop 1 s else s, c))
     else do {
       c \<leftarrow> (if startswith stripcomment ''[PDXINFO]''
             then commentconfigure ''PDXINFO'' (strip (drop (length ''[PDXINFO]'') stripcomment)) c
             else Some c);
       c \<leftarrow> (if startswith stripcomment ''[PTL]''
             then commentconfigure ''PTL'' (strip (drop (length ''[PTL]'') stripcomment)) c
             else Some c);
       let s = (if prevline then s @ ''^'' else s);
       let s = s @ comment;
       let s = (if CHR 0x0A \<in> set comment then s @ '']]'' else s);
       Some (s, c)
     }
   }"

text \<open>\<^verbatim>\<open>get_next_cmds_tags\<close>: the third argument is the list \<^verbatim>\<open>tags\<close> built so far.\<close>

fun get_next_cmds_tags :: "ctx \<Rightarrow> node list \<Rightarrow> string list \<Rightarrow> string list option" where
  "get_next_cmds_tags c [] tags = Some tags"
| "get_next_cmds_tags c (cmd # rest) tags =
     (case cmd of
        PList xs \<Rightarrow> do {
          h \<leftarrow> nth_opt xs 0;
          if h \<in> {PStr ''#'', PStr ''#$''} then do {
            idx \<leftarrow> nth_opt xs 1;
            lt \<leftarrow> lt_len idx (length (comments_block c));
            if lt then do {
              cm \<leftarrow> comment_at c idx;
              let comment = strip cm;
              if startswith comment ''['' then get_next_cmds_tags c rest (tags @ [comment])
              else get_next_cmds_tags c rest tags
            } else get_next_cmds_tags c rest tags
          } else get_next_cmds_tags c rest tags
        }
      | _ \<Rightarrow> Some tags)"

text \<open>A statement line: the indentation (read before the statement is compiled), the
  statement and a newline.\<close>

definition stmt :: "string \<Rightarrow> (string \<times> ctx) option \<Rightarrow> (string \<times> ctx) option" where
  "stmt g r = do { (s, c) \<leftarrow> r; Some (g @ s @ ''\<newline>'', c) }"

definition transpile_command :: "(string \<rightharpoonup> int) \<Rightarrow> dec_t \<Rightarrow> tcs_t \<Rightarrow> opb_t \<Rightarrow> nat \<times> nat
    \<Rightarrow> node list \<Rightarrow> ctx \<Rightarrow> (string \<times> ctx) option" where
  "transpile_command tile_ids dec tcs opb loc next_cmds c = do {
     cmd \<leftarrow> cmd_at c loc;
     h \<leftarrow> nth_opt cmd 0;
     tags \<leftarrow> get_next_cmds_tags c next_cmds [];
     op \<leftarrow> as_str h;
     if op = ''_'' then Some ([], c)
     else if op = ''done'' then Some (gi c @ ''do return end\<newline>'', c)
     else if op = ''set'' then stmt (gi c) (op_set dec cmd [] c)
     else if op = ''add'' then stmt (gi c) (op_set dec cmd ''+'' c)
     else if op = ''sub'' then stmt (gi c) (op_set dec cmd ''-'' c)
     else if op = ''div'' then stmt (gi c) (op_set dec cmd ''/'' c)
     else if op = ''mul'' then stmt (gi c) (op_set dec cmd ''*'' c)
     else if op = ''inc'' then stmt (gi c) (op_inc cmd ''+=1'' c)
     else if op = ''dec'' then stmt (gi c) (op_inc cmd ''-=1'' c)
     else if op = ''random'' then stmt (gi c) (op_random dec cmd c)
     else if op = ''if'' then stmt (gi c) (opb (PList cmd) ''if'' ''then'' (Some ''end'') c)
     else if op = ''while'' then stmt (gi c) (opb (PList cmd) ''while'' ''do'' (Some ''end'') c)
     else if op = ''call'' then stmt (gi c) (op_call dec cmd c tags)
     else if op = ''emit'' then stmt (gi c) (op_emit dec cmd c)
     else if op = ''mimic'' then stmt (gi c) (op_mimic tile_ids dec loc c)
     else if op = ''tell'' then stmt (gi c) (op_tell tile_ids dec tcs loc c)
     else if op \<in> set funclist then stmt (gi c) (opex_func dec cmd op ''__fn_'' c)
     else if op \<in> {''#'', ''#$''} then stmt (gi c) (comment cmd (op = ''#$'') c)
     else Some (gi c @ ''--unknown command code '' @ [CHR 0x27] @ op @ [CHR 0x27] @ ''\<newline>'',
                c\<lparr>errors := errors c @ [''unknown command code: '' @ op]\<rparr>)
   }"

text \<open>
  \<^verbatim>\<open>transpile_commands\<close>: the loop reads \<^verbatim>\<open>commands[i]\<close> from the table at every step (the
  number of steps is fixed when the loop starts), and hands \<^verbatim>\<open>commands[i+1:]\<close> on.
\<close>

fun commands_loop :: "(nat \<times> nat \<Rightarrow> node list \<Rightarrow> ctx \<Rightarrow> (string \<times> ctx) option) \<Rightarrow> nat \<Rightarrow> nat list
    \<Rightarrow> string \<Rightarrow> ctx \<Rightarrow> (string \<times> ctx) option" where
  "commands_loop tc b [] s c = Some (s, c)"
| "commands_loop tc b (i # is) s c = do {
     commands \<leftarrow> nth_opt (blocks c) b;
     command \<leftarrow> nth_opt commands i;
     (case command of
        PList _ \<Rightarrow> do {
          (t, c) \<leftarrow> tc (b, i) (drop (i + 1) commands) c;
          commands_loop tc b is (s @ t) c
        }
      | _ \<Rightarrow> commands_loop tc b is s c)
   }"

text \<open>\<^verbatim>\<open>for cached in sorted(list(ctx.get_funccache())): s = ctx.gi() + cached + "\n" + s\<close>,
  and then \<^verbatim>\<open>ctx.pop_funccache()\<close>.\<close>

definition flush_funccache :: "string \<Rightarrow> ctx \<Rightarrow> (string \<times> ctx) option" where
  "flush_funccache s c = do {
     top \<leftarrow> get_funccache c;
     let s = foldl (\<lambda>s cached. gi c @ cached @ ''\<newline>'' @ s) s (sorted_list_of_fset top);
     Some (s, pop_funccache c)
   }"

definition transpile_commands_body :: "(nat \<times> nat \<Rightarrow> node list \<Rightarrow> ctx \<Rightarrow> (string \<times> ctx) option)
    \<Rightarrow> nat \<Rightarrow> bool \<Rightarrow> ctx \<Rightarrow> (string \<times> ctx) option" where
  "transpile_commands_body tc b has_funccache c = do {
     let c = (if has_funccache then push_funccache c else c);
     commands \<leftarrow> nth_opt (blocks c) b;
     (s, c) \<leftarrow> commands_loop tc b [0..<length commands] [] c;
     if has_funccache then flush_funccache s c else Some (s, c)
   }"

section \<open>The recursion, bounded by the depth that is left\<close>

fun decode_rvalue :: "(string \<rightharpoonup> int) \<Rightarrow> nat \<Rightarrow> node \<Rightarrow> ctx \<Rightarrow> (string \<times> ctx) option"
  and transpile_commands :: "(string \<rightharpoonup> int) \<Rightarrow> nat \<Rightarrow> nat \<Rightarrow> bool \<Rightarrow> ctx \<Rightarrow> (string \<times> ctx) option"
  and op_block :: "(string \<rightharpoonup> int) \<Rightarrow> nat \<Rightarrow> node \<Rightarrow> string \<Rightarrow> string \<Rightarrow> string option \<Rightarrow> ctx
    \<Rightarrow> (string \<times> ctx) option"
where
  "decode_rvalue tile_ids 0 expression c = None"
| "decode_rvalue tile_ids (Suc d) expression c =
     decode_rvalue_body (decode_rvalue tile_ids d) (transpile_commands tile_ids d) expression c"
| "transpile_commands tile_ids 0 b has_funccache c = None"
| "transpile_commands tile_ids (Suc d) b has_funccache c =
     transpile_commands_body
       (transpile_command tile_ids (decode_rvalue tile_ids d) (transpile_commands tile_ids d)
          (op_block tile_ids d))
       b has_funccache c"
| "op_block tile_ids 0 cmd statement follow endkw c = None"
| "op_block tile_ids (Suc d) cmd statement follow endkw c =
     op_block_body (decode_rvalue tile_ids d) (transpile_commands tile_ids d) (op_block tile_ids d)
       cmd statement follow endkw c"

section \<open>Event handlers\<close>

text \<open>\<^verbatim>\<open>list(filter(lambda x: type(x) == list and x[0] not in ["_", "#", "#$"], block))\<close>.\<close>

fun undecorated :: "node list \<Rightarrow> node list option" where
  "undecorated [] = Some []"
| "undecorated (x # xs) =
     (case x of
        PList ys \<Rightarrow> do {
          h \<leftarrow> nth_opt ys 0;
          rest \<leftarrow> undecorated xs;
          Some (if h \<notin> {PStr ''_'', PStr ''#'', PStr ''#$''} then x # rest else rest)
        }
      | _ \<Rightarrow> undecorated xs)"

text \<open>The last step of \<^verbatim>\<open>transpile_event\<close>: the record of a handler that is one mimic of a
  resolved tile.\<close>

definition record_full_mimic :: "string \<Rightarrow> string \<Rightarrow> node list \<Rightarrow> ctx \<Rightarrow> ctx option" where
  "record_full_mimic evobj evname block c = do {
     undecorated_block \<leftarrow> undecorated block;
     if length undecorated_block = 1 then do {
       mimic \<leftarrow> nth_opt undecorated_block 0;
       m0 \<leftarrow> subscript mimic 0;
       if m0 = PStr ''mimic'' then do {
         m1 \<leftarrow> subscript mimic 1;
         resolved \<leftarrow> is_tagged m1 ''optimized-id'';
         if resolved then do {
           m12 \<leftarrow> subscript m1 2;
           Some (c\<lparr>full_mimics := full_mimics c @ [(evobj, evname, m12)]\<rparr>)
         } else Some c
       } else Some c
     } else Some c
   }"

text \<open>\<^verbatim>\<open>transpile_event\<close>. The first argument is \<^verbatim>\<open>tile_ids\<close>, the second the recursion depth
  that is left; \<^verbatim>\<open>evobjname\<close> is a string or \<^verbatim>\<open>None\<close>.\<close>

definition transpile_event :: "(string \<rightharpoonup> int) \<Rightarrow> nat \<Rightarrow> string \<Rightarrow> string \<Rightarrow> ctx \<Rightarrow> int
    \<Rightarrow> string option \<Rightarrow> string list \<Rightarrow> string list \<Rightarrow> (string \<times> ctx) option" where
  "transpile_event tile_ids d evobj evname c blockidx evobjname comments evnames = do {
     let evobj_expr = ''__pulp:getScript(\"'' @ evobj @ ''\")'';
     let s = (if istoken (PStr evname)
              then evobj_expr @ ''.'' @ evname @ '' = function(__actor, event, __evname)\<newline>''
              else evobj_expr @ ''[\"'' @ evname @ ''\"] = function(__actor, event, __evname)\<newline>'');
     b \<leftarrow> block_ref c (PInt blockidx);
     let c = c\<lparr>self_evnames := evnames\<rparr>;
     let c = c\<lparr>comments_block := comments\<rparr>;
     let c = push_evobj ''__self'' c;
     let c = c\<lparr>root_evobj := (case evobjname of
                                 Some n \<Rightarrow> if n \<noteq> [] then n else evobj_expr
                               | None \<Rightarrow> evobj_expr)\<rparr>;
     (cmdstr, c) \<leftarrow> transpile_commands tile_ids d b True c;
     let c = pop_evobj c;
     let s = s @ cmdstr;
     let s = s @ ''end\<newline>'';
     block \<leftarrow> nth_opt (blocks c) b;
     c \<leftarrow> record_full_mimic evobj evname block c;
     Some (s, c)
   }"




section \<open>What a successful compilation leaves unchanged\<close>

text \<open>
  \<open>cmd_ext x y\<close>: the command \<open>y\<close> is \<open>x\<close>, or the first operand of \<open>x\<close> is a string and \<open>y\<close> is
  \<open>x\<close> with that operand replaced by a resolved-id marker that carries the string.
  \<open>steady c c'\<close>: the dispatch-object stack, the delegation records and the attributes set by
  \<^verbatim>\<open>transpile_event\<close> are the same in \<open>c'\<close> as in \<open>c\<close>; the cache stack has the same depth and
  every frame has only grown; the block table has only had operands resolved. \<open>keeps f\<close>: a
  call of \<open>f\<close> that returns leaves the context \<open>steady\<close>.
\<close>

definition cmd_ext :: "node \<Rightarrow> node \<Rightarrow> bool" where
  "cmd_ext x y = (y = x \<or> (\<exists>h name tid rest.
       x = PList (h # PStr name # rest)
     \<and> y = PList (h # PList [PStr ''optimized-id'', PInt tid, PStr name] # rest)))"

definition steady :: "ctx \<Rightarrow> ctx \<Rightarrow> bool" where
  "steady c c' = (evobjs c' = evobjs c
     \<and> list_all2 (|\<subseteq>|) (funccache c) (funccache c')
     \<and> full_mimics c' = full_mimics c
     \<and> list_all2 (list_all2 cmd_ext) (blocks c) (blocks c')
     \<and> self_evnames c' = self_evnames c
     \<and> comments_block c' = comments_block c
     \<and> root_evobj c' = root_evobj c)"

definition keeps :: "(ctx \<Rightarrow> ('a \<times> ctx) option) \<Rightarrow> bool" where
  "keeps f = (\<forall>c r c'. f c = Some (r, c') \<longrightarrow> steady c c')"

text \<open>\<open>kept x\<close>: the element \<open>x\<close> of a block passes the filter of \<^verbatim>\<open>transpile_event\<close> (it is a
  list whose tag is neither \<^verbatim>\<open>_\<close> nor a comment tag).\<close>

definition kept :: "node \<Rightarrow> bool" where
  "kept x = (case x of PList (h # ys) \<Rightarrow> h \<notin> {PStr ''_'', PStr ''#'', PStr ''#$''} | _ \<Rightarrow> False)"

section \<open>Example inputs\<close>

text \<open>Small programs on which the theorems below are evaluated.\<close>

definition two_reads :: "node list list" where
  "two_reads = [[PList [PStr ''set'', PStr ''v'', PList [PStr ''get'', PStr ''event.x'']],
                 PList [PStr ''set'', PStr ''w'', PList [PStr ''get'', PStr ''event.y'']]]]"

definition tagged_calls :: "node list list" where
  "tagged_calls =
     [[PList [PStr ''tell'', PList [PStr ''get'', PStr ''event.room''], PList [PStr ''block'', PInt 1]]],
      [PList [PStr ''call'', PStr ''a''], PList [PStr ''call'', PStr ''b''], PList [PStr ''#$'', PInt 0]]]"

definition inc_example :: ctx where
  "inc_example = new_ctx [[PList [PStr ''inc'', PStr ''a b'']]]"

definition direct_call :: "node list list" where
  "direct_call = [[PList [PStr ''call'', PStr ''foo''], PList [PStr ''#$'', PInt 0]]]"

definition told_ctx :: ctx where
  "told_ctx = push_evobj ''__actor.script'' (new_ctx [])"

definition nested_example :: "node list list" where
  "nested_example =
     [[PList [PStr ''if'', PList [PStr ''eq'', PStr ''v'', PInt 1], PList [PStr ''block'', PInt 1],
              PList [PStr ''else'', PList [PStr ''block'', PInt 3]]],
       PList [PStr ''while'', PList [PStr ''lt'', PStr ''event.x'', PInt 9], PList [PStr ''block'', PInt 3]]],
      [PList [PStr ''tell'', PList [PStr ''get'', PStr ''event.room''], PList [PStr ''block'', PInt 2]]],
      [PList [PStr ''wait'', PInt 1, PList [PStr ''block'', PInt 3]]],
      [PList [PStr ''set'', PStr ''q'', PList [PStr ''get'', PStr ''event.x'']]]]"

definition mimic_wall :: "node list list" where
  "mimic_wall = [[PList [PStr ''#'', PInt 0], PList [PStr ''mimic'', PStr ''wall''], PList [PStr ''_'']]]"




definition frob_example :: "node list list" where
  "frob_example = [[PList [PStr ''set'', PStr ''a'', PList [PStr ''frobnicate'', PInt 1]],
                    PList [PStr ''set'', PStr ''b'', PInt 2]]]"

definition read_and_mimic :: "node list list" where
  "read_and_mimic = [[PList [PStr ''set'', PStr ''v'', PList [PStr ''get'', PStr ''event.x'']],
                      PList [PStr ''mimic'', PStr ''wall'']]]"

section \<open>Basic facts\<close>

lemma startswith_Cons [simp]:
  "startswith (x # xs) (y # ys) = (x = y \<and> startswith xs ys)"
  by (simp add: startswith_def)

lemma startswith_Nil [simp]: "startswith s [] = True" "startswith [] (y # ys) = False"
  by (simp_all add: startswith_def)

section \<open>Reserved-prefix escaping\<close>

text \<open>
  C3, as the code has it. Registering a use of a name that begins with two underscores, has no
  dot and does not carry the \<^verbatim>\<open>__PTLE_\<close> prefix counts the use under the raw name and records
  the name with two more underscores in front (not one), sanitized, in the set of known
  variables; that name is also the one returned.
\<close>

theorem pingvar_reserved_prefix:
  assumes "startswith varname ''__''" and "CHR ''.'' \<notin> set varname"
    and "\<not> startswith varname ''__PTLE_''"
  shows "fst (pingvar varname c) = sanitize_varname (''__'' @ varname)
    \<and> vars (snd (pingvar varname c)) = insert (sanitize_varname (''__'' @ varname)) (vars c)
    \<and> var_usage (snd (pingvar varname c)) varname
           = Some ((case var_usage c varname of None \<Rightarrow> 0 | Some k \<Rightarrow> k) + 1)"
  using assms by (simp add: pingvar_def Let_def)

lemma sanitize_four_underscores: "sanitize_varname ''____x'' = ''____x''"
  by code_simp

theorem pingvar_reserved_prefix_witness:
  "fst (pingvar ''__x'' (new_ctx [])) = ''____x''
    \<and> vars (snd (pingvar ''__x'' (new_ctx []))) = {''____x''}
    \<and> var_usage (snd (pingvar ''__x'' (new_ctx []))) ''__x'' = Some 1"
  using pingvar_reserved_prefix [of "''__x''" "new_ctx []"] sanitize_four_underscores
  by (simp add: new_ctx_def)

text \<open>The claim as the spec words it (one more underscore) fails on the name \<^verbatim>\<open>__x\<close>.\<close>

theorem pingvar_one_underscore_counterexample:
  "fst (pingvar ''__x'' (new_ctx [])) \<noteq> sanitize_varname (''_'' @ ''__x'')"
  by code_simp

section \<open>Unknown expression tags\<close>

text \<open>
  C8. An expression node whose tag is a string that is none of the recognized expression codes
  compiles (at any depth that allows the call at all) to the placeholder \<^verbatim>\<open>nil\<close> with a
  comment that carries the tag; exactly one entry, which contains the tag, is appended to the
  diagnostics, and nothing else in the context changes. And the loop over the commands of a
  block goes on: when the command at position \<open>i\<close> is an assignment of such an expression (and
  the commands after it are well-formed enough for their tags to be read), the loop over
  \<open>i\<close> and the later positions \<open>js\<close> is the loop over \<open>js\<close> alone, started with the text of the
  assignment (the placeholder as its value) appended and in the context to which the variable
  and the one diagnostic have been added. So the sibling commands are compiled as they would
  be after any other assignment.
\<close>

theorem unknown_expression_tag:
  assumes u: "ex \<notin> set [''get'', ''optimized-id'', ''format'', ''embed'', ''name'', ''block''] \<union> set exfuncs"
    and cs: "nth_opt (blocks c) b = Some commands"
    and ci: "nth_opt commands i = Some (PList [PStr ''set'', PStr v, PList (PStr ex # args)])"
    and tg: "get_next_cmds_tags c (drop (Suc i) commands) [] \<noteq> None"
  shows "decode_rvalue tile_ids (Suc d) (PList (PStr ex # args)) c0 =
       Some (''nil --[[unknown expression code '' @ [CHR 0x27] @ ex @ [CHR 0x27] @ '']]'',
             c0\<lparr>errors := errors c0 @ [''unknown expression code: '' @ ex]\<rparr>)
    \<and> commands_loop (transpile_command tile_ids (decode_rvalue tile_ids (Suc d)) tcs opb) b (i # js) s c =
       commands_loop (transpile_command tile_ids (decode_rvalue tile_ids (Suc d)) tcs opb) b js
         (s @ gi c @ fst (pingvar v c) @ '' = nil --[[unknown expression code '' @ [CHR 0x27] @ ex @ [CHR 0x27]
            @ '']]\<newline>'')
         ((snd (pingvar v c))\<lparr>errors := errors c @ [''unknown expression code: '' @ ex]\<rparr>)"
proof -
  have dr: "decode_rvalue tile_ids (Suc d) (PList (PStr ex # args)) c0 =
       Some (''nil --[[unknown expression code '' @ [CHR 0x27] @ ex @ [CHR 0x27] @ '']]'',
             c0\<lparr>errors := errors c0 @ [''unknown expression code: '' @ ex]\<rparr>)" for c0
    using u by (auto simp: decode_rvalue_body_def nth_opt_def as_str_def)
  have at: "cmd_at c (b, i) = Some [PStr ''set'', PStr v, PList (PStr ex # args)]"
    using cs ci by (simp add: cmd_at_def)
  obtain tags where tg': "get_next_cmds_tags c (drop (Suc i) commands) [] = Some tags"
    using tg by auto
  have pe: "errors (snd (pingvar v c)) = errors c"
    by (simp add: pingvar_def Let_def split: if_splits)
  have tc: "transpile_command tile_ids (decode_rvalue tile_ids (Suc d)) tcs opb (b, i) (drop (Suc i) commands) c =
       Some (gi c @ fst (pingvar v c) @ '' = nil --[[unknown expression code '' @ [CHR 0x27] @ ex @ [CHR 0x27]
            @ '']]\<newline>'',
         (snd (pingvar v c))\<lparr>errors := errors c @ [''unknown expression code: '' @ ex]\<rparr>)"
    using at tg' pe
    by (simp add: transpile_command_def nth_opt_def as_str_def stmt_def op_set_def Let_def
        case_prod_beta dr del: decode_rvalue.simps)
  show ?thesis
    using cs ci by (simp add: dr tc del: decode_rvalue.simps)
qed

theorem unknown_expression_tag_witness:
  "map_option (\<lambda>(s, c). (s, errors c))
     (decode_rvalue Map.empty (Suc 0) (PList [PStr ''frobnicate'', PInt 1]) (new_ctx []))
   = Some (''nil --[[unknown expression code '' @ [CHR 0x27] @ ''frobnicate'' @ [CHR 0x27] @ '']]'',
           [''unknown expression code: frobnicate''])
   \<and> map_option (\<lambda>(s, c). (s, errors c))
       (commands_loop
          (transpile_command Map.empty (decode_rvalue Map.empty (Suc 0)) (transpile_commands Map.empty (Suc 0))
             (op_block Map.empty (Suc 0)))
          0 [0, 1] [] (new_ctx frob_example))
   = Some (''  a = nil --[[unknown expression code '' @ [CHR 0x27] @ ''frobnicate'' @ [CHR 0x27] @ '']]\<newline>''
           @ ''  b = 2\<newline>'',
           [''unknown expression code: frobnicate''])
   \<and> map_option (\<lambda>(s, c). (s, errors c))
       (transpile_commands Map.empty (Suc (Suc 0)) 0 False (new_ctx frob_example))
   = Some (''  a = nil --[[unknown expression code '' @ [CHR 0x27] @ ''frobnicate'' @ [CHR 0x27] @ '']]\<newline>''
           @ ''  b = 2\<newline>'',
           [''unknown expression code: frobnicate''])"
proof -
  have h1: "''frobnicate'' \<notin> set [''get'', ''optimized-id'', ''format'', ''embed'', ''name'', ''block''] \<union> set exfuncs"
    by (simp add: exfuncs_def)
  have h2: "nth_opt (blocks (new_ctx frob_example)) 0 = Some (frob_example ! 0)"
    by (simp add: new_ctx_def nth_opt_def frob_example_def)
  have h3: "nth_opt (frob_example ! 0) 0 = Some (PList [PStr ''set'', PStr ''a'', PList (PStr ''frobnicate'' # [PInt 1])])"
    by (simp add: nth_opt_def frob_example_def)
  have h4: "get_next_cmds_tags (new_ctx frob_example) (drop (Suc 0) (frob_example ! 0)) [] \<noteq> None"
    by (simp add: frob_example_def nth_opt_def)
  note st = unknown_expression_tag [OF h1 h2 h3 h4]
  have rest: "map_option (\<lambda>(s, c). (s, errors c))
       (commands_loop
          (transpile_command Map.empty (decode_rvalue Map.empty (Suc 0)) (transpile_commands Map.empty (Suc 0))
             (op_block Map.empty (Suc 0)))
          0 [1]
          ([] @ gi (new_ctx frob_example) @ fst (pingvar ''a'' (new_ctx frob_example))
             @ '' = nil --[[unknown expression code '' @ [CHR 0x27] @ ''frobnicate'' @ [CHR 0x27] @ '']]\<newline>'')
          ((snd (pingvar ''a'' (new_ctx frob_example)))
             \<lparr>errors := errors (new_ctx frob_example) @ [''unknown expression code: '' @ ''frobnicate'']\<rparr>))
     = Some (''  a = nil --[[unknown expression code '' @ [CHR 0x27] @ ''frobnicate'' @ [CHR 0x27] @ '']]\<newline>''
           @ ''  b = 2\<newline>'',
           [''unknown expression code: frobnicate''])"
    by code_simp
  have a: "map_option (\<lambda>(s, c). (s, errors c))
     (decode_rvalue Map.empty (Suc 0) (PList [PStr ''frobnicate'', PInt 1]) (new_ctx []))
   = Some (''nil --[[unknown expression code '' @ [CHR 0x27] @ ''frobnicate'' @ [CHR 0x27] @ '']]'',
           [''unknown expression code: frobnicate''])"
    unfolding st [THEN conjunct1] by (simp add: new_ctx_def)
  have b: "map_option (\<lambda>(s, c). (s, errors c))
       (commands_loop
          (transpile_command Map.empty (decode_rvalue Map.empty (Suc 0)) (transpile_commands Map.empty (Suc 0))
             (op_block Map.empty (Suc 0)))
          0 [0, 1] [] (new_ctx frob_example))
   = Some (''  a = nil --[[unknown expression code '' @ [CHR 0x27] @ ''frobnicate'' @ [CHR 0x27] @ '']]\<newline>''
           @ ''  b = 2\<newline>'',
           [''unknown expression code: frobnicate''])"
    unfolding st [THEN conjunct2] by (rule rest)
  have w: "map_option (\<lambda>(s, c). (s, errors c))
       (transpile_commands Map.empty (Suc (Suc 0)) 0 False (new_ctx frob_example))
   = Some (''  a = nil --[[unknown expression code '' @ [CHR 0x27] @ ''frobnicate'' @ [CHR 0x27] @ '']]\<newline>''
           @ ''  b = 2\<newline>'',
           [''unknown expression code: frobnicate''])"
    by code_simp
  show ?thesis
    by (rule conjI [OF a conjI [OF b w]])
qed

section \<open>The three tiers of the function-call resolver\<close>

lemma join_args_False: "join_args xs False s = s @ concat (map ((@) '', '') xs)"
  by (induction xs arbitrary: s) auto

lemma join_Cons: "join sep (x # xs) = x @ concat (map ((@) sep) xs)"
  by (induction xs arbitrary: x) auto

lemma join_args_first: "join_args xs True s = s @ join '', '' xs"
  by (cases xs) (simp_all add: join_args_False join_Cons del: join.simps(2,3))

text \<open>
  C9. Once the operands of a built-in call are compiled and the named slots padded, exactly one
  of three tiers gives the text, tried in this order: the inline template of \<open>prefix + op\<close>
  with the arguments substituted for its placeholders; else a call of the statically bound
  function of the bare name \<open>op\<close>; else a call of the member \<open>prefix + op\<close> of \<^verbatim>\<open>__pulp\<close>.
\<close>

theorem opex_func_tiers:
  assumes "opex_args dec (drop 1 cmd) [] init_setargs c = Some ((mainargs, setargs), c')"
  shows "opex_func dec cmd op prefix c = Some (
      (let args = pad_args op setargs mainargs in
       case map_of inlinefuncs (prefix @ op) of
         Some template \<Rightarrow> fill_template template args
       | None \<Rightarrow>
          (case map_of staticfuncs op of
             Some f \<Rightarrow> f @ ''('' @ join '', '' args @ '')''
           | None \<Rightarrow> ''__pulp.'' @ prefix @ op @ ''('' @ join '', '' args @ '')'')), c')"
  using assms by (simp add: opex_func_def join_args_first Let_def split: option.splits)

lemma opex_args_literal:
  "opex_args (decode_rvalue Map.empty 1) [PInt 5] [] init_setargs (new_ctx [])
     = Some (([''5''], init_setargs), new_ctx [])"
  by (simp add: decode_rvalue_body_def str_int_def digit_char_def)

lemma tier_values:
  "(let args = pad_args ''log'' init_setargs [''5''] in
       case map_of inlinefuncs (''__fn_'' @ ''log'') of
         Some template \<Rightarrow> fill_template template args
       | None \<Rightarrow>
          (case map_of staticfuncs ''log'' of
             Some f \<Rightarrow> f @ ''('' @ join '', '' args @ '')''
           | None \<Rightarrow> ''__pulp.'' @ ''__fn_'' @ ''log'' @ ''('' @ join '', '' args @ '')'')) = ''__print(5)''"
  "(let args = pad_args ''floor'' init_setargs [''5''] in
       case map_of inlinefuncs (''__ex_'' @ ''floor'') of
         Some template \<Rightarrow> fill_template template args
       | None \<Rightarrow>
          (case map_of staticfuncs ''floor'' of
             Some f \<Rightarrow> f @ ''('' @ join '', '' args @ '')''
           | None \<Rightarrow> ''__pulp.'' @ ''__ex_'' @ ''floor'' @ ''('' @ join '', '' args @ '')'')) = ''__floor(5)''"
  "(let args = pad_args ''act'' init_setargs [''5''] in
       case map_of inlinefuncs (''__fn_'' @ ''act'') of
         Some template \<Rightarrow> fill_template template args
       | None \<Rightarrow>
          (case map_of staticfuncs ''act'' of
             Some f \<Rightarrow> f @ ''('' @ join '', '' args @ '')''
           | None \<Rightarrow> ''__pulp.'' @ ''__fn_'' @ ''act'' @ ''('' @ join '', '' args @ '')'')) = ''__pulp.__fn_act(5)''"
  by code_simp+

theorem opex_func_tiers_witness:
  "opex_func (decode_rvalue Map.empty 1) [PStr ''log'', PInt 5] ''log'' ''__fn_'' (new_ctx [])
      = Some (''__print(5)'', new_ctx [])
   \<and> opex_func (decode_rvalue Map.empty 1) [PStr ''floor'', PInt 5] ''floor'' ''__ex_'' (new_ctx [])
      = Some (''__floor(5)'', new_ctx [])
   \<and> opex_func (decode_rvalue Map.empty 1) [PStr ''act'', PInt 5] ''act'' ''__fn_'' (new_ctx [])
      = Some (''__pulp.__fn_act(5)'', new_ctx [])"
proof -
  have a: "opex_args (decode_rvalue Map.empty 1) (drop 1 [PStr ''log'', PInt 5]) [] init_setargs (new_ctx [])
      = Some (([''5''], init_setargs), new_ctx [])"
    and b: "opex_args (decode_rvalue Map.empty 1) (drop 1 [PStr ''floor'', PInt 5]) [] init_setargs (new_ctx [])
      = Some (([''5''], init_setargs), new_ctx [])"
    and c: "opex_args (decode_rvalue Map.empty 1) (drop 1 [PStr ''act'', PInt 5]) [] init_setargs (new_ctx [])
      = Some (([''5''], init_setargs), new_ctx [])"
    using opex_args_literal by simp_all
  show ?thesis
    using opex_func_tiers [OF a, of "''log''" "''__fn_''"]
      opex_func_tiers [OF b, of "''floor''" "''__ex_''"]
      opex_func_tiers [OF c, of "''act''" "''__fn_''"]
    by (simp only: tier_values)
qed

section \<open>Increment and decrement\<close>

lemma inc_case:
  assumes "cmd_at c loc = Some (PStr ''inc'' # PStr lvalue # rest)"
    and "get_next_cmds_tags c next_cmds [] = Some tags"
  shows "transpile_command tile_ids dec tcs opb loc next_cmds c
           = Some (gi c @ lvalue @ ''+=1'' @ ''\<newline>'', c)"
  by (simp add: transpile_command_def assms nth_opt_def as_str_def op_inc_def stmt_def)

lemma dec_case:
  assumes "cmd_at c loc = Some (PStr ''dec'' # PStr lvalue # rest)"
    and "get_next_cmds_tags c next_cmds [] = Some tags"
  shows "transpile_command tile_ids dec tcs opb loc next_cmds c
           = Some (gi c @ lvalue @ ''-=1'' @ ''\<newline>'', c)"
  by (simp add: transpile_command_def assms nth_opt_def as_str_def op_inc_def stmt_def)

lemma op_set_pingvar:
  "op_set dec (PStr setop # PStr lvalue # rv # rest') operator c
           = do { (rvalue, c') \<leftarrow> dec rv (snd (pingvar lvalue c));
                  Some (fst (pingvar lvalue c) @ '' '' @ operator @ ''= '' @ rvalue, c') }"
  by (simp add: op_set_def nth_opt_def as_str_def RELASSIGN_def split: prod.splits)

text \<open>
  C10. An \<^verbatim>\<open>inc\<close> or \<^verbatim>\<open>dec\<close> command whose operand is a string compiles (whenever the scan for
  tags raises nothing) to the indentation, the raw operand and the operator; the context is
  returned as it was, so neither the usage counts nor the known variables change, and the
  operand is neither sanitized nor remapped. The assignment family, in contrast, sends its
  lvalue through \<^verbatim>\<open>pingvar\<close>: the text starts with the name \<^verbatim>\<open>pingvar\<close> returns and the rvalue is
  compiled in the context \<^verbatim>\<open>pingvar\<close> has updated.
\<close>

theorem inc_dec_raw_lvalue:
  assumes "cmd_at c loc = Some (PStr op # PStr lvalue # rest)" and "op = ''inc'' \<or> op = ''dec''"
    and "get_next_cmds_tags c next_cmds [] = Some tags"
  shows "transpile_command tile_ids dec tcs opb loc next_cmds c
           = Some (gi c @ lvalue @ (if op = ''inc'' then ''+=1'' else ''-=1'') @ ''\<newline>'', c)
     \<and> op_set dec (PStr setop # PStr lvalue # rv # rest') operator c
           = do { (rvalue, c') \<leftarrow> dec rv (snd (pingvar lvalue c));
                  Some (fst (pingvar lvalue c) @ '' '' @ operator @ ''= '' @ rvalue, c') }"
proof -
  have "transpile_command tile_ids dec tcs opb loc next_cmds c
           = Some (gi c @ lvalue @ (if op = ''inc'' then ''+=1'' else ''-=1'') @ ''\<newline>'', c)"
  proof (cases "op = ''inc''")
    case True
    then show ?thesis using inc_case [of c loc lvalue rest next_cmds tags] assms by simp
  next
    case False
    then have "op = ''dec''" using assms(2) by simp
    then show ?thesis using dec_case [of c loc lvalue rest next_cmds tags] assms by simp
  qed
  then show ?thesis using op_set_pingvar by blast
qed

theorem inc_dec_raw_lvalue_witness:
  "transpile_command Map.empty (decode_rvalue Map.empty 1) (transpile_commands Map.empty 1)
       (op_block Map.empty 1) (0, 0) [] inc_example
     = Some (''  a b+=1\<newline>'', inc_example)
   \<and> map_option fst (op_set (decode_rvalue Map.empty 1) [PStr ''set'', PStr ''a b'', PInt 1] [] inc_example)
     = Some (''_G[\"a b\"] = 1'')"
proof -
  have 1: "cmd_at inc_example (0, 0) = Some (PStr ''inc'' # PStr ''a b'' # [])"
    by (simp add: inc_example_def new_ctx_def cmd_at_def nth_opt_def)
  have 2: "get_next_cmds_tags inc_example [] [] = Some []" by simp
  have 3: "gi inc_example = ''  ''" by (simp add: gi_def inc_example_def new_ctx_def)
  have 4: "fst (pingvar ''a b'' inc_example) = ''_G[\"a b\"]''" by code_simp
  show ?thesis
    using inc_dec_raw_lvalue [OF 1 _ 2, of Map.empty "decode_rvalue Map.empty 1"
        "transpile_commands Map.empty 1" "op_block Map.empty 1" "''set''" "PInt 1" "[]" "[]"]
    by (simp add: 3 4 decode_rvalue_body_def str_int_def digit_char_def)
qed

section \<open>Tags of a call\<close>

text \<open>
  C6 does not hold of the code. \<^verbatim>\<open>get_next_cmds_tags\<close> stops only at an element that is not a
  list; a command between the call and a bracketed comment is a list, so the scan goes past it.
  In the block \<^verbatim>\<open>call "a"; call "b" // [DIRECT]\<close> the tag that follows \<^verbatim>\<open>call "b"\<close> is found
  for \<^verbatim>\<open>call "a"\<close> too, and inside a \<^verbatim>\<open>tell\<close> block it turns the call of \<^verbatim>\<open>a\<close> into a direct
  one.
\<close>

theorem tags_from_later_comment:
  "get_next_cmds_tags (new_ctx tagged_calls\<lparr>comments_block := [''[DIRECT]'']\<rparr>)
       [PList [PStr ''call'', PStr ''b''], PList [PStr ''#$'', PInt 0]] [] = Some [''[DIRECT]'']
   \<and> map_option fst (transpile_event Map.empty 4 ''obj'' ''ev'' (new_ctx tagged_calls) 0 None [''[DIRECT]''] [])
     = Some (''__pulp:getScript(\"obj\").ev = function(__actor, event, __evname)\<newline>  do --[tell event.room to]\<newline>    local __actor = event.room\<newline>    if __actor then\<newline>      __actor.script.a(__actor, event, \"a\") --[call \"a\"] [DIRECT]\<newline>      __actor.script.b(__actor, event, \"b\") --[call \"b\"] [DIRECT]\<newline>      --^[DIRECT]\<newline>    end\<newline>  end\<newline>\<newline>end\<newline>'')"
  by code_simp

section \<open>The prologue of a function scope\<close>

lemma foldl_prepend:
  "foldl (\<lambda>s x. g @ x @ e # s) s xs = concat (map (\<lambda>x. g @ x @ [e]) (rev xs)) @ s"
  by (induction xs arbitrary: s) auto

lemma sorted_list_of_fset_sorted: "sorted (sorted_list_of_fset A)" "distinct (sorted_list_of_fset A)"
  by (simp_all add: sorted_list_of_fset.rep_eq)

text \<open>
  C1, as the code has it. A block compiled with a function scope gives the declarations of its
  cache frame, each once and on a line of its own at the indentation of the block, and then the
  text of its commands. The frame is sorted and every declaration is put in front of the text
  built so far, so the declarations stand in descending order: the greatest comes first.
  Nothing is said of a second compilation of the same table: the first one rewrites the
  operand of a \<^verbatim>\<open>mimic\<close> of a known tile in place, and the second one then gives another text
  (the example after the theorem).
\<close>

theorem function_scope_prologue:
  assumes "transpile_commands tile_ids (Suc d) b True c = Some (s, c')"
  shows "\<exists>commands body c1 top.
     nth_opt (blocks c) b = Some commands
     \<and> commands_loop
          (transpile_command tile_ids (decode_rvalue tile_ids d) (transpile_commands tile_ids d)
             (op_block tile_ids d))
          b [0..<length commands] [] (push_funccache c) = Some (body, c1)
     \<and> get_funccache c1 = Some top
     \<and> s = concat (map (\<lambda>cached. gi c1 @ cached @ ''\<newline>'') (rev (sorted_list_of_fset top))) @ body
     \<and> sorted (sorted_list_of_fset top) \<and> distinct (sorted_list_of_fset top)
     \<and> c' = pop_funccache c1"
  using assms
  by (auto simp: transpile_commands_body_def flush_funccache_def Let_def push_funccache_def
      foldl_prepend sorted_list_of_fset_sorted Option.bind_eq_Some_conv)

lemma two_reads_compiles: "transpile_commands Map.empty 2 0 True (new_ctx two_reads) \<noteq> None"
  by code_simp

theorem function_scope_prologue_witness:
  "\<exists>commands body c1 top.
     nth_opt (blocks (new_ctx two_reads)) 0 = Some commands
     \<and> commands_loop
          (transpile_command Map.empty (decode_rvalue Map.empty 1) (transpile_commands Map.empty 1)
             (op_block Map.empty 1))
          0 [0..<length commands] [] (push_funccache (new_ctx two_reads)) = Some (body, c1)
     \<and> get_funccache c1 = Some top
     \<and> fst (the (transpile_commands Map.empty 2 0 True (new_ctx two_reads)))
         = concat (map (\<lambda>cached. gi c1 @ cached @ ''\<newline>'') (rev (sorted_list_of_fset top))) @ body
     \<and> sorted (sorted_list_of_fset top) \<and> distinct (sorted_list_of_fset top)
     \<and> snd (the (transpile_commands Map.empty 2 0 True (new_ctx two_reads))) = pop_funccache c1"
proof -
  obtain s c' where r: "transpile_commands Map.empty (Suc 1) 0 True (new_ctx two_reads) = Some (s, c')"
    using two_reads_compiles by (auto simp: numeral_2_eq_2)
  show ?thesis
    using function_scope_prologue [OF r] r by (simp add: numeral_2_eq_2)
qed

text \<open>The claim as the spec words it fails twice. The declaration of \<^verbatim>\<open>event.y\<close> comes before
  the one of \<^verbatim>\<open>event.x\<close>, which is the smaller string: the order is not ascending. And a block
  that mimics the tile \<^verbatim>\<open>wall\<close>, whose id is 7, compiles to one text the first time and to
  another when the table that the first compilation leaves is compiled again in a new context:
  the operand is by then the marker of the resolved id, which \<^verbatim>\<open>op_mimic\<close> does not take for a
  resolved name.\<close>

theorem sorted_prologue_counterexample:
  "map_option fst (transpile_commands Map.empty 2 0 True (new_ctx two_reads))
     = Some (''  local __event_y = __actor.y or __pulp.player.y\<newline>''
           @ ''  local __event_x = __actor.x or __pulp.player.x\<newline>''
           @ ''  v = __event_x\<newline>  w = __event_y\<newline>'')
   \<and> ''local __event_x = __actor.x or __pulp.player.x'' < ''local __event_y = __actor.y or __pulp.player.y''
   \<and> map_option fst (transpile_commands [''wall'' \<mapsto> 7] 2 0 True (new_ctx read_and_mimic))
     = Some (''  local __event_x = __actor.x or __pulp.player.x\<newline>''
           @ ''  v = __event_x\<newline>''
           @ ''  do -- (mimic)\<newline>''
           @ ''    local __mimic_target__ = (__pulp.tiles[--[[(wall)]] 7] or __pulp.EMPTY).script;\<newline>''
           @ ''    (__mimic_target__[__evname] or __mimic_target__.any)(__actor, event, __evname)\<newline>''
           @ ''  end\<newline>'')
   \<and> map_option fst
       (do { (s, c) \<leftarrow> transpile_commands [''wall'' \<mapsto> 7] 2 0 True (new_ctx read_and_mimic);
             transpile_commands [''wall'' \<mapsto> 7] 2 0 True (new_ctx (blocks c)) })
     = Some (''  local __event_x = __actor.x or __pulp.player.x\<newline>''
           @ ''  v = __event_x\<newline>''
           @ ''  do -- (mimic)\<newline>''
           @ ''    local __mimic_target__ = __pulp:getScript(--[[(wall)]] 7) or __pulp.EMPTY;\<newline>''
           @ ''    (__mimic_target__[__evname] or __mimic_target__.any)(__actor, event, __evname)\<newline>''
           @ ''  end\<newline>'')"
  by code_simp


section \<open>Calls tagged for direct dispatch\<close>

lemma call_tags_no_script:
  "\<forall>tag \<in> set tags. \<not> startswith tag ''[SCRIPT:'' \<Longrightarrow>
     call_tags tags fnstr fnbase cm c = ((fnbase, cm), c)"
  by (induction tags arbitrary: cm) simp_all

lemma funccache_add_self_evnames:
  "funccache_add l c = Some y \<Longrightarrow> self_evnames y = self_evnames c"
  by (auto simp: funccache_add_def Option.bind_eq_Some_conv)

lemma op_call_token_no_evobj:
  assumes "istoken (PStr n)" and "nth_opt cmd (Suc 0) = Some (PStr n)" and "get_evobj c = None"
  shows "op_call dec cmd c tags = None"
  using assms by (simp add: op_call_def as_str_def)

lemma op_call_token:
  assumes tok: "istoken (PStr n)" and a3: "nth_opt cmd (Suc 0) = Some (PStr n)"
    and d: "''[DIRECT]'' \<in> set tags" and ns: "\<forall>tag \<in> set tags. \<not> startswith tag ''[SCRIPT:''"
    and r: "op_call dec cmd c tags = Some (s, c')" and ev: "get_evobj c = Some evobj"
  shows "s = (if evobj = ''__self''
            then (if n \<in> set (self_evnames c)
                  then evobj @ ''.'' @ n @ ''(__actor, event, '' @ ''\"'' @ n @ ''\"'' @ '') ''
                  else ''__self.any(__actor, event, '' @ ''\"'' @ n @ ''\"'' @ '') --[call \"'' @ n
                       @ ''\"] [DIRECT] [doesn'' @ [CHR 0x27] @ ''t exist, so any]'')
            else evobj @ ''.'' @ n
                 @ ''(__actor, event, '' @ ''\"'' @ n @ ''\"'' @ '') --[call \"'' @ n @ ''\"] [DIRECT]'')"
proof -
  note nt = call_tags_no_script [OF ns]
  show ?thesis
  proof (cases "evobj = ''__self''")
    case False
    then show ?thesis
      using r d by (auto simp: op_call_def a3 tok as_str_def ev nt)
  next
    case self: True
    show ?thesis
      using r d
      by (auto simp: op_call_def a3 tok as_str_def ev self nt image_iff Option.bind_eq_Some_conv
          dest: funccache_add_self_evnames split: if_splits)
  qed
qed

lemma op_call_dynamic_fails:
  assumes "\<not> istoken name" and "nth_opt cmd (Suc 0) = Some name"
    and "dec name c = None \<or> (\<exists>fnstr c1. dec name c = Some (fnstr, c1) \<and> get_evobj c1 = None)"
  shows "op_call dec cmd c tags = None"
  using assms by (auto simp: op_call_def)

lemma op_call_dynamic:
  assumes tok: "\<not> istoken name" and a3: "nth_opt cmd (Suc 0) = Some name"
    and d: "''[DIRECT]'' \<in> set tags" and ns: "\<forall>tag \<in> set tags. \<not> startswith tag ''[SCRIPT:''"
    and r: "op_call dec cmd c tags = Some (s, c')"
    and p: "dec name c = Some (fnstr, c1)" and ev: "get_evobj c1 = Some evobj"
  shows "s = evobj @ ''['' @ fnstr @ '']''
           @ ''(__actor, event, '' @ fnstr @ '') --[call \"'' @ butlast (tl fnstr) @ ''\"] [DIRECT]''"
proof -
  note nt = call_tags_no_script [OF ns]
  show ?thesis
  proof (cases "evobj = ''__self''")
    case False
    then show ?thesis
      using r d by (auto simp: op_call_def a3 tok p ev nt)
  next
    case self: True
    show ?thesis
      using r d
      by (auto simp: op_call_def a3 tok p ev self nt Option.bind_eq_Some_conv)
  qed
qed

text \<open>
  C5, as the code has it. A call that carries the tag \<^verbatim>\<open>[DIRECT]\<close> and no \<^verbatim>\<open>[SCRIPT:...]\<close> tag
  calls the handler of the dispatch object directly (\<^verbatim>\<open>obj.name\<close> for a token name,
  \<^verbatim>\<open>obj[expr]\<close> for a computed one), with no fallback to \<^verbatim>\<open>any\<close> -- except when the dispatch
  object is \<^verbatim>\<open>__self\<close> and the name is a token that is not among the known handler names: then
  the static knowledge wins and \<^verbatim>\<open>__self.any\<close> is called.
\<close>

theorem direct_tag_call:
  assumes "''[DIRECT]'' \<in> set tags" and "\<forall>tag \<in> set tags. \<not> startswith tag ''[SCRIPT:''"
    and "nth_opt cmd 1 = Some name" and "op_call dec cmd c tags = Some (s, c')"
  shows "\<exists>fnstr c1 evobj.
      (if istoken name then Some fnstr = map_option (\<lambda>n. ''\"'' @ n @ ''\"'') (as_str name) \<and> c1 = c
       else dec name c = Some (fnstr, c1))
    \<and> get_evobj c1 = Some evobj
    \<and> s = (if evobj = ''__self'' \<and> istoken name
            then (if name \<in> PStr ` set (self_evnames c1)
                  then evobj @ ''.'' @ py_str name @ ''(__actor, event, '' @ fnstr @ '') ''
                  else ''__self.any(__actor, event, '' @ fnstr @ '') --[call \"'' @ butlast (tl fnstr)
                       @ ''\"] [DIRECT] [doesn'' @ [CHR 0x27] @ ''t exist, so any]'')
            else (if istoken name then evobj @ ''.'' @ py_str name else evobj @ ''['' @ fnstr @ '']'')
                 @ ''(__actor, event, '' @ fnstr @ '') --[call \"'' @ butlast (tl fnstr) @ ''\"] [DIRECT]'')"
proof (cases "istoken name")
  case True
  have a3: "nth_opt cmd (Suc 0) = Some name" using assms(3) by simp
  from True obtain n where n: "name = PStr n" by (auto simp: istoken_def split: node.splits)
  have tok: "istoken (PStr n)" using True n by simp
  obtain evobj where ev: "get_evobj c = Some evobj"
    using op_call_token_no_evobj [OF tok a3 [unfolded n], of c dec tags] assms(4) by (cases "get_evobj c") auto
  note s = op_call_token [OF tok a3 [unfolded n] assms(1,2,4) ev]
  show ?thesis
    unfolding n
    apply (rule exI [of _ "''\"'' @ n @ ''\"''"])
    apply (rule exI [of _ c])
    apply (rule exI [of _ evobj])
    apply (simp add: tok as_str_def py_str_def ev s image_iff)
    done
next
  case False
  have a3: "nth_opt cmd (Suc 0) = Some name" using assms(3) by simp
  obtain fnstr c1 where p: "dec name c = Some (fnstr, c1)"
    using op_call_dynamic_fails [OF False a3, of dec c tags] assms(4) by (cases "dec name c") auto
  obtain evobj where ev: "get_evobj c1 = Some evobj"
    using op_call_dynamic_fails [OF False a3, of dec c tags] assms(4) p by (cases "get_evobj c1") auto
  note s = op_call_dynamic [OF False a3 assms(1,2,4) p ev]
  show ?thesis
    apply (rule exI [of _ fnstr])
    apply (rule exI [of _ c1])
    apply (rule exI [of _ evobj])
    apply (simp add: False p ev s)
    done
qed

lemma direct_call_compiles:
  "op_call (decode_rvalue Map.empty (Suc 0)) [PStr ''call'', PStr ''foo''] told_ctx [''[DIRECT]''] \<noteq> None"
  by code_simp

theorem direct_tag_call_witness:
  "fst (the (op_call (decode_rvalue Map.empty (Suc 0)) [PStr ''call'', PStr ''foo''] told_ctx [''[DIRECT]'']))
     = ''__actor.script.foo(__actor, event, \"foo\") --[call \"foo\"] [DIRECT]''"
proof -
  obtain s c' where r:
    "op_call (decode_rvalue Map.empty (Suc 0)) [PStr ''call'', PStr ''foo''] told_ctx [''[DIRECT]''] = Some (s, c')"
    using direct_call_compiles by auto
  have tok: "istoken (PStr ''foo'')" by code_simp
  have ev: "get_evobj told_ctx = Some ''__actor.script''"
    by (simp add: told_ctx_def get_evobj_def push_evobj_def new_ctx_def)
  have "\<forall>tag \<in> set [''[DIRECT]'']. \<not> startswith tag ''[SCRIPT:''" by simp
  from direct_tag_call [OF _ this _ r, of "PStr ''foo''"]
  show ?thesis
    by (simp add: r tok ev nth_opt_def as_str_def py_str_def)
qed

text \<open>A handler that calls \<^verbatim>\<open>foo\<close>, tagged \<^verbatim>\<open>[DIRECT]\<close>, on a script without a handler of that
  name: the wildcard is called.\<close>

theorem direct_tag_counterexample:
  "map_option fst (transpile_event Map.empty 2 ''obj'' ''ev'' (new_ctx direct_call) 0 None [''[DIRECT]''] [])
    = Some (''__pulp:getScript(\"obj\").ev = function(__actor, event, __evname)\<newline>''
          @ ''  local __self = __pulp:getScript(\"obj\") --[this script]\<newline>''
          @ ''  __self.any(__actor, event, \"foo\") --[call \"foo\"] [DIRECT] [doesn'' @ [CHR 0x27] @ ''t exist, so any]\<newline>''
          @ ''  --^[DIRECT]\<newline>end\<newline>'')"
  by code_simp


section \<open>Rules for \<open>keeps\<close>\<close>

text \<open>
  The relation \<open>steady\<close> is reflexive and transitive, so \<open>keeps\<close> goes through every way the
  functions are put together: a sequence of calls, a binding, a conditional, a case distinction.
\<close>

lemma cmd_ext_refl [simp]: "cmd_ext x x"
  by (simp add: cmd_ext_def)

lemma cmd_ext_trans: "cmd_ext x y \<Longrightarrow> cmd_ext y z \<Longrightarrow> cmd_ext x z"
  by (auto simp: cmd_ext_def)

lemma block_ext_refl [simp]: "list_all2 cmd_ext xs xs"
  by (simp add: list_all2_refl)

lemma blocks_ext_refl [simp]: "list_all2 (list_all2 cmd_ext) bs bs"
  by (simp add: list_all2_refl)

lemma frames_refl [simp]: "list_all2 (|\<subseteq>|) fs fs"
  by (simp add: list_all2_refl)

lemma block_ext_trans:
  "list_all2 cmd_ext a b \<Longrightarrow> list_all2 cmd_ext b c \<Longrightarrow> list_all2 cmd_ext a c"
  using list_all2_trans [of cmd_ext cmd_ext cmd_ext a b c] cmd_ext_trans by blast

lemma blocks_ext_trans:
  "list_all2 (list_all2 cmd_ext) a b \<Longrightarrow> list_all2 (list_all2 cmd_ext) b c
     \<Longrightarrow> list_all2 (list_all2 cmd_ext) a c"
  using list_all2_trans [of "list_all2 cmd_ext" "list_all2 cmd_ext" "list_all2 cmd_ext" a b c]
    block_ext_trans by blast

lemma frames_trans:
  "list_all2 (|\<subseteq>|) a b \<Longrightarrow> list_all2 (|\<subseteq>|) b c \<Longrightarrow> list_all2 (|\<subseteq>|) a (c :: string fset list)"
  using list_all2_trans [of "(|\<subseteq>|)" "(|\<subseteq>|)" "(|\<subseteq>|)" a b c] by auto

lemma steady_refl [simp]: "steady c c"
  by (simp add: steady_def)

lemma steady_trans: "steady a b \<Longrightarrow> steady b c \<Longrightarrow> steady a c"
  unfolding steady_def by (auto intro: blocks_ext_trans frames_trans)

lemma keepsI: "(\<And>c r c'. f c = Some (r, c') \<Longrightarrow> steady c c') \<Longrightarrow> keeps f"
  by (simp add: keeps_def)

lemma keepsD: "keeps f \<Longrightarrow> f c = Some (r, c') \<Longrightarrow> steady c c'"
  by (simp add: keeps_def)

lemma keeps_Some: "(\<And>c. steady c (h c)) \<Longrightarrow> keeps (\<lambda>c. Some (g c, h c))"
  by (auto simp: keeps_def)

lemma keeps_None: "keeps (\<lambda>c. None)"
  by (simp add: keeps_def)

lemma keeps_bind:
  assumes "keeps m" and "\<And>c0 x. keeps (F c0 x)"
  shows "keeps (\<lambda>c. Option.bind (m c) (case_prod (F c)))"
proof (rule keepsI)
  fix c r c'
  assume "Option.bind (m c) (case_prod (F c)) = Some (r, c')"
  then obtain x c1 where "m c = Some (x, c1)" and "F c x c1 = Some (r, c')"
    by (auto simp: Option.bind_eq_Some_conv)
  then show "steady c c'"
    using assms by (blast intro: steady_trans dest: keepsD)
qed

lemma keeps_bind2:
  assumes "keeps m" and "\<And>c0 x y. keeps (F c0 x y)"
  shows "keeps (\<lambda>c. Option.bind (m c) (case_prod (case_prod (F c))))"
proof (rule keepsI)
  fix c r c'
  assume "Option.bind (m c) (case_prod (case_prod (F c))) = Some (r, c')"
  then obtain x y c1 where "m c = Some ((x, y), c1)" and "F c x y c1 = Some (r, c')"
    by (auto simp: Option.bind_eq_Some_conv)
  then show "steady c c'"
    using assms by (blast intro: steady_trans dest: keepsD)
qed

lemma keeps_bind_ctx:
  assumes "\<And>c y. m c = Some y \<Longrightarrow> steady c y" and "\<And>c0. keeps (F c0)"
  shows "keeps (\<lambda>c. Option.bind (m c) (F c))"
proof (rule keepsI)
  fix c r c'
  assume "Option.bind (m c) (F c) = Some (r, c')"
  then obtain y where "m c = Some y" and "F c y = Some (r, c')"
    by (auto simp: Option.bind_eq_Some_conv)
  then show "steady c c'"
    using assms by (blast intro: steady_trans dest: keepsD)
qed

lemma keeps_bind_pure:
  "(\<And>x. keeps (\<lambda>c. F c x)) \<Longrightarrow> keeps (\<lambda>c. Option.bind (m c) (F c))"
  by (auto simp: keeps_def Option.bind_eq_Some_conv)

lemma keeps_let_pair:
  assumes "\<And>c. steady c (snd (g c))" and "\<And>c0 x. keeps (F c0 x)"
  shows "keeps (\<lambda>c. Let (g c) (case_prod (F c)))"
proof (rule keepsI)
  fix c r c'
  assume a: "Let (g c) (case_prod (F c)) = Some (r, c')"
  obtain x c1 where g: "g c = (x, c1)" by (cases "g c")
  then have "F c x c1 = Some (r, c')" using a by simp
  moreover have "steady c c1" using assms(1) [of c] g by simp
  ultimately show "steady c c'"
    using assms(2) by (blast intro: steady_trans dest: keepsD)
qed

lemma keeps_let_pair2:
  assumes "\<And>c. steady c (snd (g c))" and "\<And>c0 x y. keeps (F c0 x y)"
  shows "keeps (\<lambda>c. Let (g c) (case_prod (case_prod (F c))))"
proof (rule keepsI)
  fix c r c'
  assume a: "Let (g c) (case_prod (case_prod (F c))) = Some (r, c')"
  obtain x y c1 where g: "g c = ((x, y), c1)" by (cases "g c") auto
  then have "F c x y c1 = Some (r, c')" using a by simp
  moreover have "steady c c1" using assms(1) [of c] g by simp
  ultimately show "steady c c'"
    using assms(2) by (blast intro: steady_trans dest: keepsD)
qed

lemma keeps_let_ctx:
  assumes "\<And>c. steady c (h c)" and "\<And>c0. keeps (F c0)"
  shows "keeps (\<lambda>c. Let (h c) (F c))"
proof (rule keepsI)
  fix c r c'
  assume "Let (h c) (F c) = Some (r, c')"
  then have "F c (h c) = Some (r, c')" by simp
  then show "steady c c'"
    using assms by (blast intro: steady_trans dest: keepsD)
qed

lemma keeps_let_pure:
  "(\<And>x. keeps (\<lambda>c. F c x)) \<Longrightarrow> keeps (\<lambda>c. Let (g c) (F c))"
  by (auto simp: keeps_def Let_def)

lemma keeps_case_prod:
  "(\<And>a b. keeps (\<lambda>c. G c a b)) \<Longrightarrow> keeps (\<lambda>c. case_prod (G c) x)"
  by (cases x) simp

lemma keeps_if: "keeps f \<Longrightarrow> keeps g \<Longrightarrow> keeps (\<lambda>c. if P c then f c else g c)"
  by (auto simp: keeps_def split: if_splits)

lemma keeps_case_node:
  "(\<And>s. keeps (\<lambda>c. f1 c s)) \<Longrightarrow> (\<And>i. keeps (\<lambda>c. f2 c i)) \<Longrightarrow> (\<And>t. keeps (\<lambda>c. f3 c t))
     \<Longrightarrow> keeps f4 \<Longrightarrow> (\<And>xs. keeps (\<lambda>c. f5 c xs))
     \<Longrightarrow> keeps (\<lambda>c. case_node (f1 c) (f2 c) (f3 c) (f4 c) (f5 c) (x c))"
  by (auto simp: keeps_def split: node.splits)

lemma keeps_case_option:
  "keeps f \<Longrightarrow> (\<And>y. keeps (\<lambda>c. g c y)) \<Longrightarrow> keeps (\<lambda>c. case_option (f c) (g c) (x c))"
  by (auto simp: keeps_def split: option.splits)

lemmas keeps_struct = keeps_None keeps_Some keeps_bind2 keeps_bind keeps_bind_ctx keeps_bind_pure
  keeps_let_pair2 keeps_let_pair keeps_let_ctx keeps_let_pure keeps_case_prod keeps_if
  keeps_case_node keeps_case_option

lemma steady_indent [simp]: "steady c (c\<lparr>indent := k\<rparr>)"
  by (simp add: steady_def)

lemma steady_errors [simp]: "steady c (c\<lparr>errors := k\<rparr>)"
  by (simp add: steady_def)

lemma steady_pingvar [simp]: "steady c (snd (pingvar v c))"
  by (simp add: pingvar_def steady_def Let_def)

lemma steady_add_script_tag [simp]: "steady c (snd (add_script_tag a b c))"
  by (simp add: add_script_tag_def steady_def Let_def)

lemma steady_call_tags [simp]: "steady c (snd (call_tags tags fnstr fnbase cm c))"
proof (induction tags arbitrary: fnbase cm c)
  case Nil
  then show ?case by simp
next
  case (Cons tag tags)
  show ?case
  proof (cases "startswith tag ''[SCRIPT:''")
    case True
    obtain fb c1 where a: "add_script_tag (butlast (drop 8 tag)) (butlast (tl fnstr)) c = (fb, c1)"
      by (cases "add_script_tag (butlast (drop 8 tag)) (butlast (tl fnstr)) c")
    have "steady c c1" using steady_add_script_tag [of c "butlast (drop 8 tag)" "butlast (tl fnstr)"] a by simp
    then show ?thesis
      using True a Cons.IH [of c1] by (auto intro: steady_trans)
  next
    case False
    then show ?thesis using Cons.IH by simp
  qed
qed

lemma frames_grow_last:
  "fs \<noteq> [] \<Longrightarrow> list_all2 (|\<subseteq>|) fs (butlast fs @ [finsert x (last fs)])"
  by (induction fs) (auto simp: list_all2_refl)

lemma steady_funccache_add: "funccache_add l c = Some y \<Longrightarrow> steady c y"
  by (auto simp: funccache_add_def get_funccache_def steady_def frames_grow_last
      Option.bind_eq_Some_conv split: if_splits)

lemma steady_commentconfigure: "commentconfigure m conf c = Some y \<Longrightarrow> steady c y"
  by (auto simp: commentconfigure_def steady_def Let_def split: list.splits)

lemma keeps_remap [simp]: "keeps (remap_special_varname v)"
  unfolding remap_special_varname_def cache_as_def
  by (rule keepsI) (auto split: if_splits simp: Option.bind_eq_Some_conv dest: steady_funccache_add)

lemma keeps_ex_get [simp]: "keeps (ex_get e)"
  unfolding ex_get_def
  by (rule keeps_struct | simp)+


section \<open>Every compiling function keeps the context steady\<close>

lemma steady_upd_indent [simp]:
  "steady (c\<lparr>indent := k\<rparr>) c' = steady c c'" "steady c (c'\<lparr>indent := k\<rparr>) = steady c c'"
  by (simp_all add: steady_def)

lemma list_all2_update_self:
  "(\<And>x. P x x) \<Longrightarrow> i < length xs \<Longrightarrow> P (xs ! i) y \<Longrightarrow> list_all2 P xs (xs[i := y])"
  by (simp add: list_all2_conv_all_nth nth_list_update)

lemma keeps_optimize_name_ref [simp]: "keeps (optimize_name_ref tile_ids loc (Suc 0))"
proof (rule keepsI)
  fix c r c'
  assume a: "optimize_name_ref tile_ids loc (Suc 0) c = Some (r, c')"
  then obtain cmd where cmd: "cmd_at c loc = Some cmd"
    by (auto simp: optimize_name_ref_def Option.bind_eq_Some_conv)
  then have b: "fst loc < length (blocks c)" and i: "snd loc < length (blocks c ! fst loc)"
    and at: "blocks c ! fst loc ! snd loc = PList cmd"
    by (auto simp: cmd_at_def nth_opt_def Option.bind_eq_Some_conv split: if_splits node.splits)
  show "steady c c'"
  proof (cases "c' = c")
    case True
    then show ?thesis by simp
  next
    case False
    then obtain name tid where l: "length cmd > Suc 0" and n: "cmd ! Suc 0 = PStr name"
      and c': "c' = c\<lparr>blocks := (blocks c)[fst loc := (blocks c ! fst loc)
                   [snd loc := PList (cmd[Suc 0 := PList [PStr ''optimized-id'', PInt tid, PStr name]])]]\<rparr>"
      using a cmd by (auto simp: optimize_name_ref_def split: if_splits node.splits option.splits)
    from l n obtain h rest where d: "cmd = h # PStr name # rest"
      by (cases cmd; cases "tl cmd") auto
    define y where "y = PList (cmd[Suc 0 := PList [PStr ''optimized-id'', PInt tid, PStr name]])"
    have e: "cmd_ext (blocks c ! fst loc ! snd loc) y"
      by (auto simp: cmd_ext_def d at y_def)
    have "list_all2 cmd_ext (blocks c ! fst loc) ((blocks c ! fst loc)[snd loc := y])"
      using list_all2_update_self [of cmd_ext "snd loc" "blocks c ! fst loc" y] i e by simp
    then have "list_all2 (list_all2 cmd_ext) (blocks c)
        ((blocks c)[fst loc := (blocks c ! fst loc)[snd loc := y]])"
      using list_all2_update_self [of "list_all2 cmd_ext" "fst loc" "blocks c"
          "(blocks c ! fst loc)[snd loc := y]"] b
      by simp
    then show ?thesis by (simp add: c' steady_def y_def)
  qed
qed

lemma keeps_ex_format_loop:
  assumes "\<And>e. keeps (dec e)"
  shows "keeps (ex_format_loop dec xs first s)"
proof (induction xs arbitrary: first s)
  case Nil
  show ?case by (rule keepsI) simp
next
  case (Cons x xs)
  have "keeps (\<lambda>c. ex_format_loop dec (x # xs) first s c)"
    unfolding ex_format_loop.simps
    by (rule keeps_struct | simp add: assms Cons.IH)+
  then show ?case by simp
qed

lemma keeps_ex_format: "(\<And>e. keeps (dec e)) \<Longrightarrow> keeps (ex_format dec e)"
  unfolding ex_format_def by (simp add: keeps_ex_format_loop)

lemma keeps_ex_embed: "(\<And>e. keeps (dec e)) \<Longrightarrow> keeps (ex_embed dec e)"
  unfolding ex_embed_def by (rule keeps_struct | simp)+

lemma keeps_ex_subroutine: "(\<And>b h. keeps (tcs b h)) \<Longrightarrow> keeps (ex_subroutine tcs e)"
  unfolding ex_subroutine_def by (rule keeps_struct | simp)+

lemma keeps_opex_args:
  assumes "\<And>e. keeps (dec e)"
  shows "keeps (opex_args dec xs mainargs setargs)"
proof (induction xs arbitrary: mainargs setargs)
  case Nil
  show ?case by (rule keepsI) simp
next
  case (Cons x xs)
  have "keeps (\<lambda>c. opex_args dec (x # xs) mainargs setargs c)"
    unfolding opex_args.simps
    by (rule keeps_struct | simp add: assms Cons.IH)+
  then show ?case by simp
qed

lemma keeps_opex_func: "(\<And>e. keeps (dec e)) \<Longrightarrow> keeps (opex_func dec cmd op prefix)"
  unfolding opex_func_def by (rule keeps_struct | simp add: keeps_opex_args)+

lemma keeps_ex_name: "(\<And>e. keeps (dec e)) \<Longrightarrow> keeps (ex_name dec e)"
  unfolding ex_name_def by (rule keeps_struct | simp add: keeps_opex_func)+

lemma keeps_decode_rvalue_body:
  "(\<And>e. keeps (dec e)) \<Longrightarrow> (\<And>b h. keeps (tcs b h)) \<Longrightarrow> keeps (decode_rvalue_body dec tcs e)"
  unfolding decode_rvalue_body_def
  by (rule keeps_struct | simp add: keeps_opex_func keeps_ex_name keeps_ex_format keeps_ex_embed
      keeps_ex_subroutine)+

lemma keeps_op_set: "(\<And>e. keeps (dec e)) \<Longrightarrow> keeps (op_set dec cmd operator)"
  unfolding op_set_def by (rule keeps_struct | simp)+

lemma keeps_sub_block: "(\<And>b h. keeps (tcs b h)) \<Longrightarrow> keeps (sub_block tcs block)"
  unfolding sub_block_def by (rule keeps_struct | simp)+

lemma keeps_op_block_subs:
  assumes "\<And>b h. keeps (tcs b h)" and "\<And>cmd st fo en. keeps (opb cmd st fo en)"
  shows "keeps (op_block_subs tcs opb subs s)"
proof (induction subs arbitrary: s)
  case Nil
  show ?case by (rule keepsI) simp
next
  case (Cons x xs)
  have "keeps (\<lambda>c. op_block_subs tcs opb (x # xs) s c)"
    unfolding op_block_subs.simps
    by (rule keeps_struct | simp add: assms Cons.IH keeps_sub_block)+
  then show ?case by simp
qed

lemma keeps_op_block_body:
  assumes "\<And>e. keeps (dec e)" and "\<And>b h. keeps (tcs b h)"
    and "\<And>cmd st fo en. keeps (opb cmd st fo en)"
  shows "keeps (op_block_body dec tcs opb cmd statement follow endkw)"
  unfolding op_block_body_def
  by (rule keeps_struct | simp add: assms keeps_sub_block keeps_op_block_subs)+

lemma keeps_op_call: "(\<And>e. keeps (dec e)) \<Longrightarrow> keeps (\<lambda>c. op_call dec cmd c tags)"
  unfolding op_call_def
  by (rule keeps_struct | erule steady_funccache_add | simp)+

lemma keeps_op_emit: "(\<And>e. keeps (dec e)) \<Longrightarrow> keeps (op_emit dec cmd)"
  unfolding op_emit_def by (rule keeps_struct | simp)+

lemma keeps_op_mimic: "(\<And>e. keeps (dec e)) \<Longrightarrow> keeps (op_mimic tile_ids dec loc)"
  unfolding op_mimic_def by (rule keeps_struct | simp)+

lemma evobj_bracket: "steady (push_evobj x c) c2 \<Longrightarrow> steady c (pop_evobj c2)"
  by (simp add: steady_def push_evobj_def pop_evobj_def)

lemma push_evobj_indent: "push_evobj x (c\<lparr>indent := k\<rparr>) = (push_evobj x c)\<lparr>indent := k\<rparr>"
  by (simp add: push_evobj_def)

lemma keeps_tell_body:
  assumes "\<And>b h. keeps (tcs b h)"
  shows "keeps (tell_body tcs block)"
proof (rule keepsI)
  fix c r c'
  assume "tell_body tcs block c = Some (r, c')"
  then obtain b c2 where t: "tcs b True (push_evobj ''__actor.script'' (c\<lparr>indent := indent c + 1\<rparr>)) = Some (r, c2)"
    and c': "c' = (pop_evobj c2)\<lparr>indent := indent (pop_evobj c2) - 1\<rparr>"
    by (auto simp: tell_body_def Let_def Option.bind_eq_Some_conv)
  have "steady (push_evobj ''__actor.script'' c) c2"
    using keepsD [OF assms t] by (simp add: push_evobj_indent)
  then show "steady c c'"
    by (simp add: c' evobj_bracket)
qed

lemma keeps_tell_call:
  assumes "\<And>e. keeps (dec e)"
  shows "keeps (tell_call tile_ids dec loc)"
proof (rule keepsI)
  fix c r c'
  assume "tell_call tile_ids dec loc c = Some (r, c')"
  then obtain opt c1 cmd c2 where o: "optimize_name_ref tile_ids loc (Suc 0) c = Some (opt, c1)"
    and f: "opex_func dec cmd ''tell'' ''__fn_'' (push_evobj ''__actor.script'' c1) = Some (r, c2)"
    and c': "c' = pop_evobj c2"
    by (auto simp: tell_call_def Let_def Option.bind_eq_Some_conv)
  have "steady c c1" using keepsD [OF keeps_optimize_name_ref o] .
  moreover have "steady c1 (pop_evobj c2)"
    using keepsD [OF keeps_opex_func f] assms by (simp add: evobj_bracket)
  ultimately show "steady c c'"
    using c' by (blast intro: steady_trans)
qed

lemma keeps_op_tell:
  assumes "\<And>e. keeps (dec e)" and "\<And>b h. keeps (tcs b h)"
  shows "keeps (op_tell tile_ids dec tcs loc)"
  unfolding op_tell_def
  by (rule keeps_struct | simp add: assms keeps_tell_body keeps_tell_call)+

lemma keeps_op_inc: "keeps (op_inc cmd operator)"
  unfolding op_inc_def by (rule keeps_struct | simp)+

lemma keeps_op_random: "(\<And>e. keeps (dec e)) \<Longrightarrow> keeps (op_random dec cmd)"
  unfolding op_random_def by (rule keeps_struct | simp)+

lemma steady_maybe_configure:
  "(if P then commentconfigure m conf c else Some c) = Some y \<Longrightarrow> steady c y"
  by (auto split: if_splits dest: steady_commentconfigure)

lemma keeps_comment: "keeps (comment cmd prevline)"
  unfolding comment_def
  by (rule keeps_struct | erule steady_maybe_configure | simp)+

lemma keeps_transpile_command:
  assumes "\<And>e. keeps (dec e)" and "\<And>b h. keeps (tcs b h)"
    and "\<And>cmd st fo en. keeps (opb cmd st fo en)"
  shows "keeps (transpile_command tile_ids dec tcs opb loc next_cmds)"
  unfolding transpile_command_def stmt_def
  by (rule keeps_struct | simp add: assms keeps_op_set keeps_op_inc keeps_op_random keeps_op_call
      keeps_op_emit keeps_op_mimic keeps_op_tell keeps_opex_func keeps_comment)+

lemma keeps_commands_loop:
  assumes "\<And>loc nx. keeps (tc loc nx)"
  shows "keeps (commands_loop tc b idxs s)"
proof (induction idxs arbitrary: s)
  case Nil
  show ?case by (rule keepsI) simp
next
  case (Cons i idxs)
  have "keeps (\<lambda>c. commands_loop tc b (i # idxs) s c)"
    unfolding commands_loop.simps
    by (rule keeps_struct | simp add: assms Cons.IH)+
  then show ?case by simp
qed

lemma frames_butlast:
  "list_all2 P (xs @ [x]) ys \<Longrightarrow> list_all2 P xs (butlast ys)"
  by (auto simp: list_all2_append1 list_all2_Cons1)

lemma funccache_bracket:
  "steady (push_funccache c) c2 \<Longrightarrow> steady c (pop_funccache c2)"
  by (auto simp: steady_def push_funccache_def pop_funccache_def dest: frames_butlast)

lemma keeps_transpile_commands_body:
  assumes "\<And>loc nx. keeps (tc loc nx)"
  shows "keeps (transpile_commands_body tc b has_funccache)"
proof (rule keepsI)
  fix c r c'
  assume a: "transpile_commands_body tc b has_funccache c = Some (r, c')"
  show "steady c c'"
  proof (cases has_funccache)
    case False
    then obtain n where "commands_loop tc b [0..<n] [] c = Some (r, c')"
      using a by (auto simp: transpile_commands_body_def Option.bind_eq_Some_conv)
    then show ?thesis using keepsD [OF keeps_commands_loop] assms by blast
  next
    case True
    then obtain n s c2 where l: "commands_loop tc b [0..<n] [] (push_funccache c) = Some (s, c2)"
      and c': "c' = pop_funccache c2"
      using a by (auto simp: transpile_commands_body_def flush_funccache_def Let_def
          Option.bind_eq_Some_conv)
    have "steady (push_funccache c) c2"
      using keepsD [OF keeps_commands_loop l] assms by blast
    then show ?thesis by (simp add: c' funccache_bracket)
  qed
qed

lemma keeps_compile:
  "(\<forall>e. keeps (decode_rvalue tile_ids d e))
   \<and> (\<forall>b h. keeps (transpile_commands tile_ids d b h))
   \<and> (\<forall>cmd st fo en. keeps (op_block tile_ids d cmd st fo en))"
proof (induction d)
  case 0
  show ?case by (auto intro: keepsI)
next
  case (Suc d)
  have 1: "keeps (decode_rvalue tile_ids (Suc d) e)" for e
    using keeps_decode_rvalue_body [of "decode_rvalue tile_ids d" "transpile_commands tile_ids d" e] Suc
    by (auto simp: keeps_def)
  have tc: "keeps (transpile_command tile_ids (decode_rvalue tile_ids d)
      (transpile_commands tile_ids d) (op_block tile_ids d) loc nx)" for loc nx
    using Suc by (intro keeps_transpile_command) auto
  have 2: "keeps (transpile_commands tile_ids (Suc d) b h)" for b h
    using keeps_transpile_commands_body [of "transpile_command tile_ids (decode_rvalue tile_ids d)
      (transpile_commands tile_ids d) (op_block tile_ids d)" b h] tc
    by (auto simp: keeps_def)
  have 3: "keeps (op_block tile_ids (Suc d) cmd st fo en)" for cmd st fo en
    using keeps_op_block_body [of "decode_rvalue tile_ids d" "transpile_commands tile_ids d"
        "op_block tile_ids d" cmd st fo en] Suc
    by (auto simp: keeps_def)
  show ?case using 1 2 3 by blast
qed

lemma keeps_decode_rvalue: "keeps (decode_rvalue tile_ids d e)"
  and keeps_transpile_commands: "keeps (transpile_commands tile_ids d b h)"
  and keeps_op_block: "keeps (op_block tile_ids d cmd st fo en)"
  using keeps_compile by blast+


section \<open>Cache-frame hygiene\<close>

lemma record_full_mimic_fields:
  "record_full_mimic evobj evname block c = Some c' \<Longrightarrow>
     evobjs c' = evobjs c \<and> funccache c' = funccache c \<and> blocks c' = blocks c"
  by (auto simp: record_full_mimic_def Option.bind_eq_Some_conv split: if_splits)

text \<open>
  C4. When the compilation of a top-level handler returns, the cache-frame stack and the
  dispatch-object stack are as deep as they were before (the dispatch-object stack is even the
  same list), whatever the nesting of \<^verbatim>\<open>if\<close>, \<^verbatim>\<open>while\<close>, \<^verbatim>\<open>tell\<close> and inline subroutines in the
  handler and at every recursion depth.
\<close>

theorem handler_restores_stacks:
  assumes "transpile_event tile_ids d evobj evname c blockidx evobjname comments evnames = Some (s, c')"
  shows "length (funccache c') = length (funccache c) \<and> length (evobjs c') = length (evobjs c)
    \<and> evobjs c' = evobjs c"
proof -
  obtain b cmdstr c2 block root where t: "transpile_commands tile_ids d b True
      ((push_evobj ''__self'' (c\<lparr>self_evnames := evnames, comments_block := comments\<rparr>))
         \<lparr>root_evobj := root\<rparr>) = Some (cmdstr, c2)"
    and m: "record_full_mimic evobj evname block (pop_evobj c2) = Some c'"
    using assms unfolding transpile_event_def
    by (auto simp: Let_def Option.bind_eq_Some_conv)
  note st = keepsD [OF keeps_transpile_commands t]
  have "evobjs c2 = evobjs c @ [''__self'']"
    using st by (simp add: steady_def push_evobj_def)
  moreover have "length (funccache c2) = length (funccache c)"
    using st by (auto simp: steady_def push_evobj_def dest: list_all2_lengthD)
  ultimately show ?thesis
    using record_full_mimic_fields [OF m] by (simp add: pop_evobj_def)
qed

lemma nested_example_compiles:
  "transpile_event Map.empty 10 ''obj'' ''ev'' (new_ctx nested_example) 0 None [] [] \<noteq> None"
  by code_simp

theorem handler_restores_stacks_witness:
  "length (funccache (snd (the (transpile_event Map.empty 10 ''obj'' ''ev'' (new_ctx nested_example) 0 None [] [])))) = 0
   \<and> evobjs (snd (the (transpile_event Map.empty 10 ''obj'' ''ev'' (new_ctx nested_example) 0 None [] []))) = []"
proof -
  obtain s c' where r: "transpile_event Map.empty 10 ''obj'' ''ev'' (new_ctx nested_example) 0 None [] [] = Some (s, c')"
    using nested_example_compiles by auto
  have "funccache (new_ctx nested_example) = []" and "evobjs (new_ctx nested_example) = []"
    by (simp_all add: new_ctx_def)
  then show ?thesis
    using handler_restores_stacks [OF r] by (simp add: r)
qed


section \<open>Reaching a command of a block\<close>

text \<open>When the loop over a block returns, it has reached every position of the block: in a
  context that is \<open>steady\<close> from the start, and the end is \<open>steady\<close> from there.\<close>

lemma commands_loop_visits:
  assumes tc: "\<And>loc nx. keeps (tc loc nx)"
    and l: "commands_loop tc b idxs s c = Some (s', c')"
    and i: "i \<in> set idxs"
  shows "\<exists>ca cb cmds. steady c ca \<and> steady cb c' \<and> nth_opt (blocks ca) b = Some cmds \<and> i < length cmds
     \<and> ((\<exists>xs. cmds ! i = PList xs) \<longrightarrow> (\<exists>t. tc (b, i) (drop (i + 1) cmds) ca = Some (t, cb)))"
  using l i
proof (induction idxs arbitrary: s c)
  case Nil
  then show ?case by simp
next
  case (Cons j js)
  from Cons.prems(1) obtain cmds command where cm: "nth_opt (blocks c) b = Some cmds"
    and co: "nth_opt cmds j = Some command"
    by (auto simp: Option.bind_eq_Some_conv)
  then have jl: "j < length cmds" and cj: "cmds ! j = command"
    by (auto simp: nth_opt_def split: if_splits)
  show ?case
  proof (cases "\<exists>xs. command = PList xs")
    case True
    then obtain t c1 where st: "tc (b, j) (drop (j + 1) cmds) c = Some (t, c1)"
      and rest: "commands_loop tc b js (s @ t) c1 = Some (s', c')"
      using Cons.prems(1) cm co by (auto simp: Option.bind_eq_Some_conv)
    have s1: "steady c c1" using keepsD [OF tc st] .
    show ?thesis
    proof (cases "i = j")
      case True
      have "steady c1 c'" using keepsD [OF keeps_commands_loop rest] tc by blast
      then show ?thesis using True cm jl st by (intro exI [of _ c] exI [of _ c1] exI [of _ cmds]) auto
    next
      case False
      then have "i \<in> set js" using Cons.prems(2) by simp
      from Cons.IH [OF rest this] obtain ca cb cmds' where
        "steady c1 ca" "steady cb c'" "nth_opt (blocks ca) b = Some cmds'" "i < length cmds'"
        "(\<exists>xs. cmds' ! i = PList xs) \<longrightarrow> (\<exists>t. tc (b, i) (drop (i + 1) cmds') ca = Some (t, cb))"
        by blast
      then show ?thesis using s1 by (blast intro: steady_trans)
    qed
  next
    case False
    then have rest: "commands_loop tc b js s c = Some (s', c')"
      using Cons.prems(1) cm co by (cases command) (auto simp: Option.bind_eq_Some_conv)
    show ?thesis
    proof (cases "i = j")
      case True
      have "steady c c'" using keepsD [OF keeps_commands_loop rest] tc by blast
      then show ?thesis using True cm jl cj False
        by (intro exI [of _ c] exI [of _ c] exI [of _ cmds]) auto
    next
      case False
      then have "i \<in> set js" using Cons.prems(2) by simp
      from Cons.IH [OF rest this] show ?thesis .
    qed
  qed
qed

lemma steady_block:
  assumes "steady c c'" and "nth_opt (blocks c) b = Some cmds"
  shows "\<exists>cmds'. nth_opt (blocks c') b = Some cmds' \<and> list_all2 cmd_ext cmds cmds'"
proof -
  have l: "list_all2 (list_all2 cmd_ext) (blocks c) (blocks c')" using assms(1) by (simp add: steady_def)
  have b: "b < length (blocks c)" and e: "blocks c ! b = cmds"
    using assms(2) by (auto simp: nth_opt_def split: if_splits)
  have "b < length (blocks c')" using l b by (auto dest: list_all2_lengthD)
  moreover have "list_all2 cmd_ext cmds (blocks c' ! b)" using list_all2_nthD [OF l b] e by simp
  ultimately show ?thesis by (simp add: nth_opt_def)
qed

section \<open>Single-delegation collapse\<close>

lemma cmd_ext_resolved:
  "cmd_ext (PList (h # PList m # rest)) y \<Longrightarrow> y = PList (h # PList m # rest)"
  by (auto simp: cmd_ext_def)

lemma cmd_ext_cases:
  "cmd_ext (PList (h # PStr name # rest)) y \<Longrightarrow>
     y = PList (h # PStr name # rest)
     \<or> (\<exists>tid. y = PList (h # PList [PStr ''optimized-id'', PInt tid, PStr name] # rest))"
  by (auto simp: cmd_ext_def)

lemma cmd_at_nth:
  "nth_opt (blocks c) b = Some cmds \<Longrightarrow> i < length cmds \<Longrightarrow> cmds ! i = PList cmd
     \<Longrightarrow> cmd_at c (b, i) = Some cmd"
  by (simp add: cmd_at_def nth_opt_def)

lemma optimize_hit:
  assumes "cmd_at c loc = Some (h # PStr name # rest)" and "tile_ids name = Some tid"
  shows "\<exists>c1. optimize_name_ref tile_ids loc (Suc 0) c = Some (True, c1)
     \<and> cmd_at c1 loc = Some (h # PList [PStr ''optimized-id'', PInt tid, PStr name] # rest)"
proof -
  have b: "fst loc < length (blocks c)" and i: "snd loc < length (blocks c ! fst loc)"
    using assms(1)
    by (auto simp: cmd_at_def nth_opt_def Option.bind_eq_Some_conv split: if_splits node.splits)
  show ?thesis
    using assms b i by (simp add: optimize_name_ref_def cmd_at_def nth_opt_def)
qed

lemma steady_cmd_at:
  assumes "steady c c'" and "cmd_at c loc = Some cmd"
  shows "\<exists>cmd'. cmd_at c' loc = Some cmd' \<and> cmd_ext (PList cmd) (PList cmd')"
proof -
  obtain cmds where n: "nth_opt (blocks c) (fst loc) = Some cmds" and i: "snd loc < length cmds"
    and e: "cmds ! snd loc = PList cmd"
    using assms(2)
    by (auto simp: cmd_at_def nth_opt_def Option.bind_eq_Some_conv split: if_splits node.splits)
  obtain cmds' where n': "nth_opt (blocks c') (fst loc) = Some cmds'" and l: "list_all2 cmd_ext cmds cmds'"
    using steady_block [OF assms(1) n] by blast
  have i': "snd loc < length cmds'" using l i by (auto dest: list_all2_lengthD)
  have x: "cmd_ext (PList cmd) (cmds' ! snd loc)" using list_all2_nthD [OF l i] e by simp
  then obtain cmd' where "cmds' ! snd loc = PList cmd'" by (auto simp: cmd_ext_def)
  then show ?thesis using n' i' x by (auto simp: cmd_at_def nth_opt_def)
qed

lemma op_mimic_resolves:
  assumes dec: "\<And>e. keeps (dec e)" and r: "op_mimic tile_ids dec loc c = Some (r, c')"
    and at: "cmd_at c loc = Some (h # PStr name # rest)" and t: "tile_ids name = Some tid"
  shows "cmd_at c' loc = Some (h # PList [PStr ''optimized-id'', PInt tid, PStr name] # rest)"
proof -
  obtain c1 where o: "optimize_name_ref tile_ids loc (Suc 0) c = Some (True, c1)"
    and at1: "cmd_at c1 loc = Some (h # PList [PStr ''optimized-id'', PInt tid, PStr name] # rest)"
    using optimize_hit [where tile_ids = tile_ids, OF at t] by blast
  define f where "f = (\<lambda>c. do {
     cmd \<leftarrow> cmd_at c loc;
     target \<leftarrow> nth_opt cmd 1;
     (let s = ''do -- (mimic)\<newline>'';
          c = c\<lparr>indent := indent c + 1\<rparr>;
          g = gi c in do {
       (t, c) \<leftarrow> dec target c;
       let s = s @ g @ ''local __mimic_target__ = (__pulp.tiles['' @ t @ ''] or __pulp.EMPTY).script;\<newline>'';
       let s = s @ gi c @ ''(__mimic_target__[__evname] or __mimic_target__.any)(__actor, event, __evname)\<newline>'';
       let c = c\<lparr>indent := indent c - 1\<rparr>;
       Some (s @ gi c @ ''end'', c) }) })"
  have "f c1 = Some (r, c')" using r o by (simp add: op_mimic_def f_def)
  moreover have "keeps f" unfolding f_def by (rule keeps_struct | simp add: dec)+
  ultimately have "steady c1 c'" by (rule keepsD [rotated])
  from steady_cmd_at [OF this at1] show ?thesis by (auto dest: cmd_ext_resolved)
qed

lemma mimic_command_resolves:
  assumes dec: "\<And>e. keeps (dec e)"
    and r: "transpile_command tile_ids dec tcs opb loc nx c = Some (r, c')"
    and at: "cmd_at c loc = Some (PStr ''mimic'' # PStr name # rest)" and t: "tile_ids name = Some tid"
  shows "cmd_at c' loc = Some (PStr ''mimic'' # PList [PStr ''optimized-id'', PInt tid, PStr name] # rest)"
proof -
  obtain s where "op_mimic tile_ids dec loc c = Some (s, c')"
    using r at by (auto simp: transpile_command_def nth_opt_def as_str_def stmt_def
        Option.bind_eq_Some_conv)
  from op_mimic_resolves [where tile_ids = tile_ids, OF dec this at t] show ?thesis .
qed

lemma undecorated_filter:
  "undecorated xs = Some us \<Longrightarrow> us = filter kept xs \<and> PList [] \<notin> set xs"
proof (induction xs arbitrary: us)
  case Nil
  then show ?case by simp
next
  case (Cons x xs)
  show ?case
  proof (cases x)
    case (PList ys)
    then show ?thesis
      using Cons by (cases ys) (auto simp: nth_opt_def kept_def Option.bind_eq_Some_conv)
  qed (use Cons in \<open>auto simp: kept_def\<close>)
qed

lemma filter_undecorated:
  "PList [] \<notin> set xs \<Longrightarrow> undecorated xs = Some (filter kept xs)"
proof (induction xs)
  case Nil
  then show ?case by simp
next
  case (Cons x xs)
  show ?case
  proof (cases x)
    case (PList ys)
    then show ?thesis
      using Cons by (cases ys) (auto simp: nth_opt_def kept_def)
  qed (use Cons in \<open>auto simp: kept_def\<close>)
qed

lemma cmd_ext_kept: "cmd_ext x y \<Longrightarrow> kept y = kept x"
  by (auto simp: cmd_ext_def kept_def)

lemma cmd_ext_empty: "cmd_ext x (PList []) \<Longrightarrow> x = PList []"
  by (auto simp: cmd_ext_def)

lemma filter_singleton:
  "filter P xs = [x] \<Longrightarrow> x \<in> set xs \<and> P x"
proof -
  assume "filter P xs = [x]"
  then have "x \<in> set (filter P xs)" by simp
  then show ?thesis by simp
qed

lemma filter_singleton_nth:
  "filter P xs = [x] \<Longrightarrow> i < length xs \<Longrightarrow> P (xs ! i) \<Longrightarrow> xs ! i = x"
proof -
  assume f: "filter P xs = [x]" and i: "i < length xs" and p: "P (xs ! i)"
  from i p have "xs ! i \<in> set (filter P xs)" by simp
  then show ?thesis by (simp add: f)
qed

lemma filter_ext_length:
  "list_all2 cmd_ext xs ys \<Longrightarrow> length (filter kept ys) = length (filter kept xs)"
  by (induction rule: list_all2_induct) (auto simp: cmd_ext_kept)

lemma undecorated_resolved:
  assumes u: "undecorated xs = Some [x]" and l: "list_all2 cmd_ext xs ys"
    and i: "i < length xs" and xi: "xs ! i = x"
  shows "undecorated ys = Some [ys ! i]"
proof -
  have f: "filter kept xs = [x]" and ne: "PList [] \<notin> set xs"
    using undecorated_filter [OF u] by auto
  have kx: "kept x" using filter_singleton [OF f] by simp
  have "PList [] \<notin> set ys"
  proof
    assume "PList [] \<in> set ys"
    then obtain j where j: "j < length ys" and e: "ys ! j = PList []" by (auto simp: in_set_conv_nth)
    have "cmd_ext (xs ! j) (ys ! j)" using l j by (auto dest: list_all2_nthD2)
    then have "xs ! j = PList []" using e cmd_ext_empty by simp
    moreover have "j < length xs" using l j by (auto dest: list_all2_lengthD)
    ultimately show False using ne by (metis nth_mem)
  qed
  then have uy: "undecorated ys = Some (filter kept ys)" by (rule filter_undecorated)
  have iy: "i < length ys" using l i by (auto dest: list_all2_lengthD)
  have ky: "kept (ys ! i)" using list_all2_nthD [OF l i] kx xi cmd_ext_kept by blast
  have "length (filter kept ys) = 1" using filter_ext_length [OF l] f by simp
  then obtain y where y: "filter kept ys = [y]" by (cases "filter kept ys") auto
  have "ys ! i = y" using filter_singleton_nth [OF y iy ky] .
  then show ?thesis using uy y by simp
qed

lemma record_resolved_mimic:
  assumes "undecorated block = Some [PList (PStr ''mimic'' # PList [PStr ''optimized-id'', tid, PStr name] # rest)]"
  shows "record_full_mimic evobj evname block c
     = Some (c\<lparr>full_mimics := full_mimics c @ [(evobj, evname, PStr name)]\<rparr>)"
  using assms by (simp add: record_full_mimic_def nth_opt_def subscript_def is_tagged_def)

text \<open>
  C2, as the code has it. When the body of a top-level handler, without its comments and empty
  commands, is exactly one \<^verbatim>\<open>mimic\<close> of a name that the tile table knows, compiling the handler
  appends exactly one record to the full-delegation list: the owner, the event name, and the
  name of the tile as the script has it (the third entry of the resolved-id marker) -- not the
  numeric id, which is the second entry of the marker.
\<close>

theorem single_mimic_recorded:
  assumes r: "transpile_event tile_ids d evobj evname c blockidx evobjname comments evnames = Some (s, c')"
    and b: "block_ref c (PInt blockidx) = Some b"
    and u: "undecorated (blocks c ! b) = Some [PList (PStr ''mimic'' # PStr name # rest)]"
    and t: "tile_ids name = Some tid"
  shows "full_mimics c' = full_mimics c @ [(evobj, evname, PStr name)]"
proof -
  define x where "x = PList (PStr ''mimic'' # PStr name # rest)"
  define m where "m = PList (PStr ''mimic'' # PList [PStr ''optimized-id'', PInt tid, PStr name] # rest)"
  obtain cmdstr c2 block root where tc: "transpile_commands tile_ids d b True
      ((push_evobj ''__self'' (c\<lparr>self_evnames := evnames, comments_block := comments\<rparr>))
         \<lparr>root_evobj := root\<rparr>) = Some (cmdstr, c2)"
    and bl: "nth_opt (blocks (pop_evobj c2)) b = Some block"
    and rec: "record_full_mimic evobj evname block (pop_evobj c2) = Some c'"
    using r b unfolding transpile_event_def
    by (auto simp: Let_def Option.bind_eq_Some_conv)
  define c0 where "c0 = (push_evobj ''__self'' (c\<lparr>self_evnames := evnames, comments_block := comments\<rparr>))
         \<lparr>root_evobj := root\<rparr>"
  have bc0: "blocks c0 = blocks c" and fm0: "full_mimics c0 = full_mimics c"
    by (simp_all add: c0_def push_evobj_def)
  have st: "steady c0 c2" using keepsD [OF keeps_transpile_commands] tc c0_def by blast
  have bb: "b < length (blocks c)"
    using b by (auto simp: block_ref_def Let_def split: if_splits)
  then have n0: "nth_opt (blocks c0) b = Some (blocks c ! b)" by (simp add: nth_opt_def bc0)
  have "filter kept (blocks c ! b) = [x]" using undecorated_filter [OF u] by (simp add: x_def)
  then have xin: "x \<in> set (blocks c ! b)" by (rule filter_singleton [THEN conjunct1])
  obtain i where i: "i < length (blocks c ! b)" and xi: "blocks c ! b ! i = x"
    using xin unfolding in_set_conv_nth by blast
  obtain d' where d: "d = Suc d'" using tc by (cases d) auto
  define TC where "TC = transpile_command tile_ids (decode_rvalue tile_ids d')
      (transpile_commands tile_ids d') (op_block tile_ids d')"
  have ktc: "keeps (TC loc nx)" for loc nx
    unfolding TC_def
    by (intro keeps_transpile_command keeps_decode_rvalue keeps_transpile_commands keeps_op_block)
  obtain body c1 where loop: "commands_loop TC b [0..<length (blocks c ! b)] [] (push_funccache c0) = Some (body, c1)"
    and c2: "c2 = pop_funccache c1"
    using tc n0 c0_def [symmetric] unfolding d TC_def
    by (auto simp: transpile_commands_body_def flush_funccache_def Let_def push_funccache_def
        Option.bind_eq_Some_conv)
  have "i \<in> set [0..<length (blocks c ! b)]" using i by simp
  from commands_loop_visits [of TC, OF ktc loop this]
  obtain ca cb cmds where sa: "steady (push_funccache c0) ca" and sb: "steady cb c1"
    and na: "nth_opt (blocks ca) b = Some cmds" and il: "i < length cmds"
    and step: "(\<exists>xs. cmds ! i = PList xs) \<longrightarrow> (\<exists>t. TC (b, i) (drop (i + 1) cmds) ca = Some (t, cb))"
    by blast
  have np: "nth_opt (blocks (push_funccache c0)) b = Some (blocks c ! b)"
    using n0 by (simp add: push_funccache_def)
  obtain cmds' where "nth_opt (blocks ca) b = Some cmds'" and la: "list_all2 cmd_ext (blocks c ! b) cmds'"
    using steady_block [OF sa np] by blast
  then have la: "list_all2 cmd_ext (blocks c ! b) cmds" using na by simp
  have ea: "cmd_ext x (cmds ! i)" using list_all2_nthD [OF la i] xi by simp
  then consider "cmds ! i = x" | tid' where
      "cmds ! i = PList (PStr ''mimic'' # PList [PStr ''optimized-id'', PInt tid', PStr name] # rest)"
    using cmd_ext_cases unfolding x_def by blast
  then have "\<exists>tid'. cmd_at cb (b, i)
       = Some (PStr ''mimic'' # PList [PStr ''optimized-id'', PInt tid', PStr name] # rest)"
  proof cases
    case 1
    then have at: "cmd_at ca (b, i) = Some (PStr ''mimic'' # PStr name # rest)"
      using cmd_at_nth [OF na il] by (simp add: x_def)
    obtain t' where "TC (b, i) (drop (i + 1) cmds) ca = Some (t', cb)" using step 1 x_def by auto
    from mimic_command_resolves [where tile_ids = tile_ids, OF keeps_decode_rvalue this [unfolded TC_def] at t]
    show ?thesis by blast
  next
    case 2
    then have at: "cmd_at ca (b, i)
        = Some (PStr ''mimic'' # PList [PStr ''optimized-id'', PInt tid', PStr name] # rest)"
      using cmd_at_nth [OF na il] by simp
    obtain t' where "TC (b, i) (drop (i + 1) cmds) ca = Some (t', cb)" using step 2 by auto
    then have "steady ca cb" using keepsD [OF ktc] by blast
    from steady_cmd_at [OF this at] show ?thesis by (auto dest: cmd_ext_resolved)
  qed
  then obtain tid' where
    atb: "cmd_at cb (b, i) = Some (PStr ''mimic'' # PList [PStr ''optimized-id'', PInt tid', PStr name] # rest)"
    by blast
  obtain cmd1 where at1: "cmd_at c1 (b, i) = Some cmd1"
    and "cmd_ext (PList (PStr ''mimic'' # PList [PStr ''optimized-id'', PInt tid', PStr name] # rest)) (PList cmd1)"
    using steady_cmd_at [OF sb atb] by blast
  then have cmd1: "cmd1 = PStr ''mimic'' # PList [PStr ''optimized-id'', PInt tid', PStr name] # rest"
    by (auto dest: cmd_ext_resolved)
  have s1: "steady (push_funccache c0) c1" using keepsD [OF keeps_commands_loop loop] ktc by blast
  obtain cmds1 where n1: "nth_opt (blocks c1) b = Some cmds1" and l1: "list_all2 cmd_ext (blocks c ! b) cmds1"
    using steady_block [OF s1 np] by blast
  have "cmds1 ! i = PList cmd1"
    using at1 n1 by (auto simp: cmd_at_def nth_opt_def Option.bind_eq_Some_conv split: if_splits node.splits)
  then have u1: "undecorated cmds1 = Some [PList (PStr ''mimic'' # PList [PStr ''optimized-id'', PInt tid', PStr name] # rest)]"
    using undecorated_resolved [OF u [folded x_def] l1 i xi] by (simp add: cmd1)
  have "blocks (pop_evobj c2) = blocks c1" by (simp add: c2 pop_evobj_def pop_funccache_def)
  then have "block = cmds1" using bl n1 by simp
  then have "c' = (pop_evobj c2)\<lparr>full_mimics := full_mimics (pop_evobj c2) @ [(evobj, evname, PStr name)]\<rparr>"
    using rec record_resolved_mimic [OF u1] by simp
  moreover have "full_mimics (pop_evobj c2) = full_mimics c"
    using s1 by (simp add: c2 pop_evobj_def pop_funccache_def steady_def push_funccache_def fm0)
  ultimately show ?thesis by simp
qed

lemma mimic_wall_compiles:
  "transpile_event [''wall'' \<mapsto> 7] 3 ''obj'' ''ev'' (new_ctx mimic_wall) 0 None [''a wall''] [] \<noteq> None"
  by code_simp

theorem single_mimic_recorded_witness:
  "full_mimics (snd (the (transpile_event [''wall'' \<mapsto> 7] 3 ''obj'' ''ev'' (new_ctx mimic_wall) 0 None [''a wall''] [])))
     = [(''obj'', ''ev'', PStr ''wall'')]"
proof -
  obtain s c' where r: "transpile_event [''wall'' \<mapsto> 7] 3 ''obj'' ''ev'' (new_ctx mimic_wall) 0 None [''a wall''] [] = Some (s, c')"
    using mimic_wall_compiles by auto
  have b: "block_ref (new_ctx mimic_wall) (PInt 0) = Some 0"
    by (simp add: block_ref_def new_ctx_def mimic_wall_def)
  have u: "undecorated (blocks (new_ctx mimic_wall) ! 0) = Some [PList (PStr ''mimic'' # PStr ''wall'' # [])]"
    by (simp add: new_ctx_def mimic_wall_def nth_opt_def)
  have f: "full_mimics (new_ctx mimic_wall) = []" by (simp add: new_ctx_def)
  show ?thesis
    using single_mimic_recorded [OF r b u, of 7] by (simp add: r f)
qed

text \<open>The record of a handler that mimics the tile \<^verbatim>\<open>wall\<close>, whose id is 7, carries the string
  \<^verbatim>\<open>wall\<close>.\<close>

theorem single_mimic_numeric_counterexample:
  "map_option (\<lambda>(s, c). full_mimics c)
     (transpile_event [''wall'' \<mapsto> 7] 3 ''obj'' ''ev'' (new_ctx mimic_wall) 0 None [''a wall''] [])
     = Some [(''obj'', ''ev'', PStr ''wall'')]
   \<and> PStr ''wall'' \<noteq> PInt 7"
  by code_simp


section \<open>One declaration for the reads of \<^verbatim>\<open>event.x\<close>\<close>














end
